theory Spec2Isabelle
  imports Complex_Main "HOL-Library.AList"
begin

section \<open>Python values and exceptions\<close>

text \<open>
  The script \<^verbatim>\<open>ansible/dynamic_inventory.py\<close> works on the objects that
  \<^verbatim>\<open>json.loads\<close> returns and on the dictionaries it builds itself. A dictionary is an
  association list in insertion order (the order \<^verbatim>\<open>json.dumps\<close> writes); a lookup takes
  the first entry of a key, and a dictionary of Python has every key once. An integer is
  unbounded. A finite float is the real number it stands for (both zeros are 0); the three
  other floats that \<^verbatim>\<open>json.loads\<close> accepts have constructors of their own.
\<close>

datatype py_float = Finite real | NaN | PosInf | NegInf

datatype py_value =
    PyNone
  | PyBool bool
  | PyInt int
  | PyFloat py_float
  | PyStr string
  | PyList "py_value list"
  | PyDict "(string \<times> py_value) list"

text \<open>The exceptions the script names or can meet; each carries what its text shows.\<close>

datatype py_exception =
    CalledProcessError int
  | JSONDecodeError string
  | KeyError string
  | AttributeError string string
  | SystemExit int
  | OtherException string

text \<open>\<^verbatim>\<open>type(v).__name__\<close>, as the text of an AttributeError shows it.\<close>

fun type_name :: "py_value \<Rightarrow> string" where
  "type_name PyNone = ''NoneType''"
| "type_name (PyBool _) = ''bool''"
| "type_name (PyInt _) = ''int''"
| "type_name (PyFloat _) = ''float''"
| "type_name (PyStr _) = ''str''"
| "type_name (PyList _) = ''list''"
| "type_name (PyDict _) = ''dict''"

text \<open>Truth value testing, as \<^verbatim>\<open>not ec2_ip\<close> applies it.\<close>

fun truthy :: "py_value \<Rightarrow> bool" where
  "truthy PyNone = False"
| "truthy (PyBool b) = b"
| "truthy (PyInt i) = (i \<noteq> 0)"
| "truthy (PyFloat f) = (f \<noteq> Finite 0)"
| "truthy (PyStr s) = (s \<noteq> [])"
| "truthy (PyList xs) = (xs \<noteq> [])"
| "truthy (PyDict kvs) = (kvs \<noteq> [])"

text \<open>
  \<^verbatim>\<open>v.get(k, d)\<close>: on a dictionary the value at \<open>k\<close>, or \<open>d\<close> when the key is missing; no
  other type that \<^verbatim>\<open>json.loads\<close> returns has a method \<^verbatim>\<open>get\<close>, and the attribute
  lookup raises AttributeError.
\<close>

fun dict_get :: "py_value \<Rightarrow> string \<Rightarrow> py_value \<Rightarrow> py_exception + py_value" where
  "dict_get (PyDict kvs) k d = Inr (case map_of kvs k of Some v \<Rightarrow> v | None \<Rightarrow> d)"
| "dict_get v k d = Inl (AttributeError (type_name v) ''get'')"

section \<open>The process: its two output streams\<close>

text \<open>
  A line of the error stream is a fixed text, an f-string that ends in the text of an
  exception (\<^verbatim>\<open>f"...: {e}"\<close>), or the traceback of an uncaught exception.
\<close>

datatype stderr_line =
    Text string
  | Formatted string py_exception
  | Traceback py_exception

record process_io =
  sys_stdout :: "string list"
  sys_stderr :: "stderr_line list"


definition print_stderr :: "stderr_line \<Rightarrow> process_io \<Rightarrow> process_io" where
  "print_stderr line s = s\<lparr>sys_stderr := sys_stderr s @ [line]\<rparr>"

section \<open>generate_inventory\<close>

text \<open>The literal \<^verbatim>\<open>{"_meta": {"hostvars": {}}}\<close> of lines 46 and 50.\<close>

definition empty_inventory :: py_value where
  "empty_inventory = PyDict [(''_meta'', PyDict [(''hostvars'', PyDict [])])]"

text \<open>The dictionary of lines 53 to 72.\<close>

definition inventory_dict :: "py_value \<Rightarrow> py_value \<Rightarrow> string \<Rightarrow> string \<Rightarrow> py_value" where
  "inventory_dict ec2_ip vault_domain vault_version vault_token =
     PyDict
      [(''vault_servers'', PyDict
         [(''hosts'', PyList [PyStr ''vault_server'']),
          (''vars'', PyDict
            [(''vault_version'', PyStr vault_version),
             (''vault_domain'', vault_domain),
             (''vault_root_token'', PyStr vault_token)])]),
       (''_meta'', PyDict
         [(''hostvars'', PyDict
            [(''vault_server'', PyDict
               [(''ansible_host'', ec2_ip),
                (''ansible_user'', PyStr ''ubuntu''),
                (''ansible_ssh_private_key_file'', PyStr ''../vault-ssh-key.pem''),
                (''ansible_ssh_common_args'', PyStr ''-o StrictHostKeyChecking=no'')])])])]"

text \<open>
  The body of the \<^verbatim>\<open>try\<close> of lines 38 to 46. It raises, returns from the function
  (line 46), or falls through with the four variables bound.
\<close>

datatype 'a flow = Return py_value | Continue 'a

definition extract_values ::
  "py_value \<Rightarrow> process_io \<Rightarrow>
     (py_exception + (py_value \<times> py_value \<times> string \<times> string) flow) \<times> process_io" where
  "extract_values terraform_output s =
     (case dict_get terraform_output ''ec2_public_ip'' (PyDict []) of
        Inl e \<Rightarrow> (Inl e, s)
      | Inr ec2_record \<Rightarrow>
     (case dict_get ec2_record ''value'' (PyStr '''') of
        Inl e \<Rightarrow> (Inl e, s)
      | Inr ec2_ip \<Rightarrow>
     (case dict_get terraform_output ''vault_domain'' (PyDict []) of
        Inl e \<Rightarrow> (Inl e, s)
      | Inr domain_record \<Rightarrow>
     (case dict_get domain_record ''value'' (PyStr ''vault.example.com'') of
        Inl e \<Rightarrow> (Inl e, s)
      | Inr vault_domain \<Rightarrow>
          let vault_version = ''1.15.6'';
              vault_token = ''vault-dev-root-token''
          in if \<not> truthy ec2_ip
             then (Inr (Return empty_inventory),
                   print_stderr (Text ''Error: Could not get EC2 IP from terraform output'') s)
             else (Inr (Continue (ec2_ip, vault_domain, vault_version, vault_token)), s)))))"

text \<open>
  Lines 37 to 74 of \<^verbatim>\<open>generate_inventory\<close>, as a function of the value that line 35 binds
  to \<^verbatim>\<open>terraform_output\<close>: the \<^verbatim>\<open>try\<close> with its one handler, for KeyError, then the
  inventory. Any other exception leaves the function.
\<close>

definition generate_inventory_from ::
  "py_value \<Rightarrow> process_io \<Rightarrow> (py_exception + py_value) \<times> process_io" where
  "generate_inventory_from terraform_output s =
     (case extract_values terraform_output s of
        (Inl (KeyError k), s') \<Rightarrow>
          (Inr empty_inventory,
           print_stderr (Formatted ''Error: Missing key in terraform output: '' (KeyError k)) s')
      | (Inl e, s') \<Rightarrow> (Inl e, s')
      | (Inr (Return v), s') \<Rightarrow> (Inr v, s')
      | (Inr (Continue (ec2_ip, vault_domain, vault_version, vault_token)), s') \<Rightarrow>
          (Inr (inventory_dict ec2_ip vault_domain vault_version vault_token), s'))"

section \<open>get_terraform_output\<close>

text \<open>
  What the script takes from the world around it, each a call of the standard library:
  the absolute path of the script file, \<^verbatim>\<open>os.path.dirname\<close>, what starting a command in
  a directory does, \<^verbatim>\<open>json.loads\<close> (raises, or returns the parsed value) and
  \<^verbatim>\<open>json.dumps\<close> with its \<^verbatim>\<open>indent\<close> argument.

  Starting the command raises (the program is not installed, the directory is missing), or
  the command runs to its end: it leaves an exit status and its captured output, and
  reading that output as text (\<^verbatim>\<open>text=True\<close>) raises (bytes that are not text) or gives
  the text of its standard output.
\<close>

record finished_command =
  exit_status :: int
  communicate :: "py_exception + string"

record completed_process =
  returncode :: int
  stdout :: string

record env =
  file_abspath :: string
  os_path_dirname :: "string \<Rightarrow> string"
  popen :: "string list \<Rightarrow> string \<Rightarrow> py_exception + finished_command"
  json_loads :: "string \<Rightarrow> py_exception + py_value"
  json_dumps :: "nat option \<Rightarrow> py_value \<Rightarrow> string"

text \<open>
  \<^verbatim>\<open>subprocess.run(cmd, cwd=cwd, capture_output=True, text=True, check=True)\<close>: the
  command is started and its output read as text, each of which may raise; only then is
  the exit status looked at, and a non-zero one raises CalledProcessError.
\<close>

definition subprocess_run ::
  "env \<Rightarrow> string list \<Rightarrow> string \<Rightarrow> py_exception + completed_process" where
  "subprocess_run env cmd cwd =
     (case popen env cmd cwd of
        Inl e \<Rightarrow> Inl e
      | Inr process \<Rightarrow>
          (case communicate process of
             Inl e \<Rightarrow> Inl e
           | Inr text \<Rightarrow>
               if exit_status process \<noteq> 0 then Inl (CalledProcessError (exit_status process))
               else Inr \<lparr>returncode = exit_status process, stdout = text\<rparr>))"

text \<open>
  Lines 12 to 31: the \<^verbatim>\<open>try\<close> and its two handlers. An exception of any other class
  leaves the function.
\<close>

definition get_terraform_output ::
  "env \<Rightarrow> process_io \<Rightarrow> (py_exception + py_value) \<times> process_io" where
  "get_terraform_output env s =
     (let terraform_dir = os_path_dirname env (os_path_dirname env (file_abspath env))
      in case (case subprocess_run env [''terraform'', ''output'', ''-json'']
                      terraform_dir of
                 Inl e \<Rightarrow> Inl e
               | Inr result \<Rightarrow> json_loads env (stdout result)) of
           Inl (CalledProcessError rc) \<Rightarrow>
             (Inr (PyDict []),
              print_stderr
                (Formatted ''Error running terraform output: '' (CalledProcessError rc)) s)
         | Inl (JSONDecodeError msg) \<Rightarrow>
             (Inr (PyDict []),
              print_stderr
                (Formatted ''Error parsing terraform output: '' (JSONDecodeError msg)) s)
         | Inl e \<Rightarrow> (Inl e, s)
         | Inr v \<Rightarrow> (Inr v, s))"


section \<open>main\<close>



section \<open>Reading documents\<close>

text \<open>\<open>item v k\<close> is \<^verbatim>\<open>v[k]\<close> where \<open>v\<close> is a dictionary with that key.\<close>

fun item :: "py_value \<Rightarrow> string \<Rightarrow> py_value option" where
  "item (PyDict kvs) k = map_of kvs k"
| "item v k = None"

fun path :: "py_value \<Rightarrow> string list \<Rightarrow> py_value option" where
  "path v [] = Some v"
| "path v (k # ks) = (case item v k of None \<Rightarrow> None | Some w \<Rightarrow> path w ks)"

fun is_dict :: "py_value \<Rightarrow> bool" where
  "is_dict (PyDict kvs) = True"
| "is_dict v = False"

text \<open>
  The data model's ProvisioningOutput: a mapping from output names to records, each itself a
  mapping. The \<open>value\<close> field of a record may be missing.
\<close>

definition provisioning_output :: "py_value \<Rightarrow> bool" where
  "provisioning_output out =
     (case out of PyDict kvs \<Rightarrow> list_all (\<lambda>(name, r). is_dict r) kvs | _ \<Rightarrow> False)"

text \<open>The keys of the document other than the reserved \<open>_meta\<close>: its groups.\<close>

definition group_names :: "py_value \<Rightarrow> string list" where
  "group_names doc =
     (case doc of PyDict kvs \<Rightarrow> filter (\<lambda>k. k \<noteq> ''_meta'') (map fst kvs) | _ \<Rightarrow> [])"

text \<open>The \<open>vars\<close> mappings of the document's groups.\<close>

definition group_vars :: "py_value \<Rightarrow> py_value list" where
  "group_vars doc =
     (case doc of
        PyDict kvs \<Rightarrow>
          concat (map (\<lambda>(g, grp). if g = ''_meta'' then []
                                    else (case item grp ''vars'' of Some vs \<Rightarrow> [vs] | None \<Rightarrow> []))
                      kvs)
      | _ \<Rightarrow> [])"

text \<open>The host identifiers that the \<open>hosts\<close> sequences of the document's groups name.\<close>

definition group_hosts :: "py_value \<Rightarrow> py_value list" where
  "group_hosts grp = (case item grp ''hosts'' of Some (PyList hs) \<Rightarrow> hs | _ \<Rightarrow> [])"

definition referenced_hosts :: "py_value \<Rightarrow> py_value list" where
  "referenced_hosts doc =
     (case doc of
        PyDict kvs \<Rightarrow>
          concat (map (\<lambda>(g, grp). if g = ''_meta'' then [] else group_hosts grp) kvs)
      | _ \<Rightarrow> [])"

text \<open>The keys of \<open>_meta.hostvars\<close>, as host identifiers.\<close>

definition hostvars_keys :: "py_value \<Rightarrow> py_value list" where
  "hostvars_keys doc =
     (case path doc [''_meta'', ''hostvars''] of
        Some (PyDict kvs) \<Rightarrow> map (\<lambda>(h, vars). PyStr h) kvs
      | _ \<Rightarrow> [])"

text \<open>
  An output entry that the builder can read: missing, or a record. \<open>readable_output\<close> asks
  it of the two entries the builder reads, of a mapping.
\<close>

definition record_or_absent :: "py_value \<Rightarrow> string \<Rightarrow> bool" where
  "record_or_absent out k = (case item out k of None \<Rightarrow> True | Some r \<Rightarrow> is_dict r)"

definition readable_output :: "py_value \<Rightarrow> bool" where
  "readable_output out =
     (is_dict out \<and> record_or_absent out ''ec2_public_ip''
        \<and> record_or_absent out ''vault_domain'')"

text \<open>
  \<^verbatim>\<open>out.get(k, {}).get('value', d)\<close> where both lookups find dictionaries: the value of
  output \<open>k\<close>, or \<open>d\<close> when the output or its \<open>value\<close> field is missing.
\<close>

definition output_value_or :: "py_value \<Rightarrow> string \<Rightarrow> py_value \<Rightarrow> py_value" where
  "output_value_or out k d = (case path out [k, ''value''] of Some v \<Rightarrow> v | None \<Rightarrow> d)"

section \<open>Concrete inputs\<close>

text \<open>A process that has printed nothing yet.\<close>

definition fresh_io :: process_io where
  "fresh_io = \<lparr>sys_stdout = [], sys_stderr = []\<rparr>"

text \<open>
  The provisioning output
  \<^verbatim>\<open>{"ec2_public_ip": {"value": "203.0.113.10"}, "vault_domain": {"value": "vault.test"}}\<close>.
\<close>

definition scenario_output :: py_value where
  "scenario_output =
     PyDict [(''ec2_public_ip'', PyDict [(''value'', PyStr ''203.0.113.10'')]),
             (''vault_domain'', PyDict [(''value'', PyStr ''vault.test'')])]"

text \<open>\<^verbatim>\<open>{"ec2_public_ip": {"value": "203.0.113.10"}}\<close>: no domain.\<close>

definition address_only_output :: py_value where
  "address_only_output = PyDict [(''ec2_public_ip'', PyDict [(''value'', PyStr ''203.0.113.10'')])]"

text \<open>The scenario's output with one more entry, \<open>instance_id\<close>, in front.\<close>

definition larger_output :: py_value where
  "larger_output =
     PyDict [(''instance_id'', PyDict [(''value'', PyStr ''i-0abc'')]),
             (''ec2_public_ip'', PyDict [(''value'', PyStr ''203.0.113.10'')]),
             (''vault_domain'', PyDict [(''value'', PyStr ''vault.test'')])]"

text \<open>\<^verbatim>\<open>{"ec2_public_ip": {"value": ""}}\<close>: an empty address.\<close>

definition empty_address_output :: py_value where
  "empty_address_output = PyDict [(''ec2_public_ip'', PyDict [(''value'', PyStr '''')])]"

text \<open>
  \<^verbatim>\<open>{"ec2_public_ip": {"value": "203.0.113.10"}, "vault_domain": {"value": 1.5}}\<close>: a
  float where the domain is expected.
\<close>

definition float_domain_output :: py_value where
  "float_domain_output =
     PyDict [(''ec2_public_ip'', PyDict [(''value'', PyStr ''203.0.113.10'')]),
             (''vault_domain'', PyDict [(''value'', PyFloat (Finite (3 / 2)))])]"


text \<open>
  A world in which starting the command does the given thing and \<^verbatim>\<open>json.loads\<close> turns
  every text into the given result; \<^verbatim>\<open>json.dumps\<close> is a stand-in that tells the empty
  dictionary, the indented sentinel, another indented document and a plain one apart.
\<close>

definition world_of :: "(py_exception + finished_command) \<Rightarrow> (py_exception + py_value) \<Rightarrow> env" where
  "world_of started parsed =
     \<lparr>file_abspath = ''/repo/ansible/dynamic_inventory.py'',
      os_path_dirname = (\<lambda>p. if p = ''/repo/ansible/dynamic_inventory.py'' then ''/repo/ansible''
                              else ''/repo''),
      popen = (\<lambda>cmd cwd. started),
      json_loads = (\<lambda>t. parsed),
      json_dumps = (\<lambda>indent v. if v = PyDict [] then ''{}''
                                 else if indent = Some 2 then
                                   (if v = empty_inventory then ''<sentinel, indent 2>''
                                    else ''<document, indent 2>'')
                                 else ''<document>'')\<rparr>"

text \<open>The world in which the tool exits with the given status and prints the given text.\<close>

definition world :: "int \<Rightarrow> string \<Rightarrow> (py_exception + py_value) \<Rightarrow> env" where
  "world status printed parsed =
     world_of (Inr \<lparr>exit_status = status, communicate = Inr printed\<rparr>) parsed"


text \<open>The tool exits with status 1 and its output holds bytes that are not text.\<close>

definition world_undecodable :: env where
  "world_undecodable =
     world_of (Inr \<lparr>exit_status = 1, communicate = Inl (OtherException ''UnicodeDecodeError'')\<rparr>)
       (Inr scenario_output)"

text \<open>
  The tool exits with status 0 and prints 100000 opening brackets, on which \<^verbatim>\<open>json.loads\<close>
  raises RecursionError.
\<close>

definition world_deeply_nested :: env where
  "world_deeply_nested =
     world 0 (replicate 100000 (CHR ''['')) (Inl (OtherException ''RecursionError''))"

section \<open>Structured text\<close>

text \<open>
  Modelled from the spec: the serializer (structured text with 2-space indentation) and
  the parser that reads it back are not in the repository. The script calls \<^verbatim>\<open>json.dumps\<close>
  of the Python library and leaves the reading to the configuration tool. What follows is
  that library's text format, for the values above: \<^verbatim>\<open>json.dumps\<close> with its defaults
  (\<^verbatim>\<open>ensure_ascii\<close>, the separators that go with \<^verbatim>\<open>indent\<close>), and \<^verbatim>\<open>json.loads\<close>.
  A string is its list of code points, each below 256. The text of a finite float and the
  float of a text are parameters (\<^verbatim>\<open>float.__repr__\<close> and \<^verbatim>\<open>float\<close>). The parser's
  recursion is bounded by a counter that starts above the length of the text, which is
  more than it can use.
\<close>

subsection \<open>The encoder\<close>

text \<open>
  Strings: a quotation mark, a backslash and the control characters with a short escape
  take it; the other characters from the space to the tilde stand for themselves; every
  other one is written \<^verbatim>\<open>\u00XX\<close> with lower-case digits.
\<close>

definition hex_digit :: "nat \<Rightarrow> char" where
  "hex_digit n = (if n < 10 then char_of (48 + n) else char_of (87 + n))"

definition escape_char :: "char \<Rightarrow> string" where
  "escape_char c =
     (if c = CHR 0x22 then [CHR 0x5C, CHR 0x22]
      else if c = CHR 0x5C then [CHR 0x5C, CHR 0x5C]
      else if c = CHR 0x08 then [CHR 0x5C, CHR ''b'']
      else if c = CHR 0x0C then [CHR 0x5C, CHR ''f'']
      else if c = CHR 0x0A then [CHR 0x5C, CHR ''n'']
      else if c = CHR 0x0D then [CHR 0x5C, CHR ''r'']
      else if c = CHR 0x09 then [CHR 0x5C, CHR ''t'']
      else if 32 \<le> (of_char c :: nat) \<and> (of_char c :: nat) \<le> 126 then [c]
      else [CHR 0x5C, CHR ''u'', CHR ''0'', CHR ''0'',
            hex_digit (of_char c div 16), hex_digit (of_char c mod 16)])"

definition encode_basestring_ascii :: "string \<Rightarrow> string" where
  "encode_basestring_ascii s = CHR 0x22 # concat (map escape_char s) @ [CHR 0x22]"

text \<open>
  Integers: the decimal digits, after a minus sign for a negative number.
\<close>

fun digits :: "nat \<Rightarrow> string" where
  "digits n = (if n < 10 then [hex_digit n] else digits (n div 10) @ [hex_digit (n mod 10)])"

declare digits.simps [simp del]

definition int_repr :: "int \<Rightarrow> string" where
  "int_repr i = (if i < 0 then CHR ''-'' # digits (nat (- i)) else digits (nat i))"

text \<open>
  Sequences and mappings. With \<open>indent = None\<close> the items follow each other after a
  comma and a space on one line; with \<open>indent = Some n\<close> each item is on a line of its
  own, \<open>n\<close> spaces in for every level it is nested, and the items are separated by a
  comma alone. A key and its value are separated by a colon and a space. The empty
  sequence and the empty mapping are \<^verbatim>\<open>[]\<close> and \<^verbatim>\<open>{}\<close> at any indentation.
\<close>

fun join :: "string \<Rightarrow> string list \<Rightarrow> string" where
  "join sep [] = []"
| "join sep [x] = x"
| "join sep (x # y # ys) = x @ sep @ join sep (y # ys)"

definition newline_indent :: "nat option \<Rightarrow> nat \<Rightarrow> string" where
  "newline_indent indent level =
     (case indent of None \<Rightarrow> [] | Some n \<Rightarrow> CHR 0x0A # replicate (n * level) CHR '' '')"

definition item_separator :: "nat option \<Rightarrow> string" where
  "item_separator indent = (case indent of None \<Rightarrow> '', '' | Some n \<Rightarrow> '','')"

fun iterencode :: "(real \<Rightarrow> string) \<Rightarrow> nat option \<Rightarrow> nat \<Rightarrow> py_value \<Rightarrow> string" where
  "iterencode fr indent level PyNone = ''null''"
| "iterencode fr indent level (PyBool b) = (if b then ''true'' else ''false'')"
| "iterencode fr indent level (PyInt i) = int_repr i"
| "iterencode fr indent level (PyFloat f) =
     (case f of NaN \<Rightarrow> ''NaN'' | PosInf \<Rightarrow> ''Infinity'' | NegInf \<Rightarrow> ''-Infinity''
      | Finite r \<Rightarrow> fr r)"
| "iterencode fr indent level (PyStr s) = encode_basestring_ascii s"
| "iterencode fr indent level (PyList xs) =
     (if xs = [] then ''[]''
      else ''['' @ newline_indent indent (Suc level)
           @ join (item_separator indent @ newline_indent indent (Suc level))
               (map (iterencode fr indent (Suc level)) xs)
           @ newline_indent indent level @ '']'')"
| "iterencode fr indent level (PyDict kvs) =
     (if kvs = [] then ''{}''
      else ''{'' @ newline_indent indent (Suc level)
           @ join (item_separator indent @ newline_indent indent (Suc level))
               (map (\<lambda>(k, v). encode_basestring_ascii k @ '': ''
                                 @ iterencode fr indent (Suc level) v) kvs)
           @ newline_indent indent level @ ''}'')"

definition json_dumps_model :: "(real \<Rightarrow> string) \<Rightarrow> nat option \<Rightarrow> py_value \<Rightarrow> string" where
  "json_dumps_model fr indent v = iterencode fr indent 0 v"

subsection \<open>The decoder\<close>

text \<open>
  The parser skips blanks, tabs, line feeds and carriage returns between tokens.
\<close>

definition is_ws :: "char \<Rightarrow> bool" where
  "is_ws c = (c = CHR '' '' \<or> c = CHR 0x09 \<or> c = CHR 0x0A \<or> c = CHR 0x0D)"

definition skip_ws :: "string \<Rightarrow> string" where
  "skip_ws s = dropWhile is_ws s"

definition is_digit :: "char \<Rightarrow> bool" where
  "is_digit c = (48 \<le> (of_char c :: nat) \<and> (of_char c :: nat) \<le> 57)"

text \<open>
  Strings: the text after the opening quotation mark, up to the closing one. A control
  character is refused, a backslash starts one of the short escapes or \<^verbatim>\<open>\uXXXX\<close> with
  four hexadecimal digits; a code point from 256 on has no string here and is refused.
\<close>

definition hex_val :: "char \<Rightarrow> nat option" where
  "hex_val c =
     (let n = (of_char c :: nat)
      in if 48 \<le> n \<and> n \<le> 57 then Some (n - 48)
         else if 97 \<le> n \<and> n \<le> 102 then Some (n - 87)
         else if 65 \<le> n \<and> n \<le> 70 then Some (n - 55)
         else None)"

definition decode_uXXXX :: "char \<Rightarrow> char \<Rightarrow> char \<Rightarrow> char \<Rightarrow> nat option" where
  "decode_uXXXX a b c d =
     (case (hex_val a, hex_val b, hex_val c, hex_val d) of
        (Some w, Some x, Some y, Some z) \<Rightarrow> Some (((w * 16 + x) * 16 + y) * 16 + z)
      | _ \<Rightarrow> None)"

definition backslash :: "char \<Rightarrow> char option" where
  "backslash e =
     (if e = CHR 0x22 then Some (CHR 0x22)
      else if e = CHR 0x5C then Some (CHR 0x5C)
      else if e = CHR ''/'' then Some (CHR ''/'')
      else if e = CHR ''b'' then Some (CHR 0x08)
      else if e = CHR ''f'' then Some (CHR 0x0C)
      else if e = CHR ''n'' then Some (CHR 0x0A)
      else if e = CHR ''r'' then Some (CHR 0x0D)
      else if e = CHR ''t'' then Some (CHR 0x09)
      else None)"

fun scanstring :: "string \<Rightarrow> string \<Rightarrow> (string \<times> string) option" where
  "scanstring [] acc = None"
| "scanstring (c # cs) acc =
     (if c = CHR 0x22 then Some (acc, cs)
      else if c = CHR 0x5C then
        (case cs of
           [] \<Rightarrow> None
         | e # es \<Rightarrow>
             if e = CHR ''u'' then
               (case es of
                  h1 # h2 # h3 # h4 # rest \<Rightarrow>
                    (case decode_uXXXX h1 h2 h3 h4 of
                       None \<Rightarrow> None
                     | Some n \<Rightarrow> if n < 256 then scanstring rest (acc @ [char_of n]) else None)
                | _ \<Rightarrow> None)
             else (case backslash e of
                     None \<Rightarrow> None
                   | Some ch \<Rightarrow> scanstring es (acc @ [ch])))
      else if (of_char c :: nat) < 32 then None
      else scanstring cs (acc @ [c]))"

text \<open>
  Numbers: an integer part (an optional minus sign, then a zero or digits that start with
  none), an optional fraction (a point and digits) and an optional exponent. With neither
  fraction nor exponent the number is an integer, otherwise a float.
\<close>

definition digits_val :: "string \<Rightarrow> nat" where
  "digits_val ds = foldl (\<lambda>n c. 10 * n + (of_char c - 48)) 0 ds"

definition match_integer :: "string \<Rightarrow> (string \<times> string) option" where
  "match_integer s =
     (let (sign, t) = (case s of c # cs \<Rightarrow> if c = CHR ''-'' then ([c], cs) else ([], s)
                              | [] \<Rightarrow> ([], s))
      in case t of
           [] \<Rightarrow> None
         | d # ds \<Rightarrow>
             if \<not> is_digit d then None
             else if d = CHR ''0'' then Some (sign @ [d], ds)
             else Some (sign @ d # takeWhile is_digit ds, dropWhile is_digit ds))"

definition match_frac :: "string \<Rightarrow> string \<times> string" where
  "match_frac s =
     (case s of
        c # d # ds \<Rightarrow>
          if c = CHR ''.'' \<and> is_digit d
          then (c # d # takeWhile is_digit ds, dropWhile is_digit ds)
          else ([], s)
      | _ \<Rightarrow> ([], s))"

definition match_exp :: "string \<Rightarrow> string \<times> string" where
  "match_exp s =
     (case s of
        e # t \<Rightarrow>
          if e = CHR ''e'' \<or> e = CHR ''E'' then
            (let (sign, u) = (case t of c # cs \<Rightarrow> if c = CHR ''-'' \<or> c = CHR ''+''
                                                  then ([c], cs) else ([], t)
                                      | [] \<Rightarrow> ([], t))
             in case u of
                  d # ds \<Rightarrow>
                    if is_digit d
                    then (e # sign @ d # takeWhile is_digit ds, dropWhile is_digit ds)
                    else ([], s)
                | [] \<Rightarrow> ([], s))
          else ([], s)
      | [] \<Rightarrow> ([], s))"

definition parse_int :: "string \<Rightarrow> int" where
  "parse_int t =
     (case t of c # cs \<Rightarrow> if c = CHR ''-'' then - int (digits_val cs) else int (digits_val t)
              | [] \<Rightarrow> 0)"

definition match_number :: "(string \<Rightarrow> real) \<Rightarrow> string \<Rightarrow> (py_value \<times> string) option" where
  "match_number fo s =
     (case match_integer s of
        None \<Rightarrow> None
      | Some (integer, r1) \<Rightarrow>
          let (fraction, r2) = match_frac r1; (exponent, r3) = match_exp r2
          in if fraction \<noteq> [] \<or> exponent \<noteq> []
             then Some (PyFloat (Finite (fo (integer @ fraction @ exponent))), r3)
             else Some (PyInt (parse_int integer), r3))"

text \<open>
  A mapping is built from its pairs in the order of the text; a key that comes again
  replaces the value and keeps the place.
\<close>

definition dict_of_pairs :: "(string \<times> py_value) list \<Rightarrow> (string \<times> py_value) list" where
  "dict_of_pairs pairs = fold (\<lambda>(k, v). AList.update k v) pairs []"

text \<open>
  A value, by its first character; the items of a sequence and the members of a mapping,
  up to the closing bracket. The first argument reads a float from its text, the second
  is the counter.
\<close>

fun scan_once :: "(string \<Rightarrow> real) \<Rightarrow> nat \<Rightarrow> string \<Rightarrow> (py_value \<times> string) option"
and parse_array ::
  "(string \<Rightarrow> real) \<Rightarrow> nat \<Rightarrow> string \<Rightarrow> py_value list \<Rightarrow> (py_value list \<times> string) option"
and parse_object ::
  "(string \<Rightarrow> real) \<Rightarrow> nat \<Rightarrow> string \<Rightarrow> (string \<times> py_value) list
     \<Rightarrow> ((string \<times> py_value) list \<times> string) option"
where
  "scan_once fo 0 s = None"
| "scan_once fo (Suc n) s =
     (case s of
        [] \<Rightarrow> None
      | c # cs \<Rightarrow>
          if c = CHR 0x22 then
            (case scanstring cs [] of
               None \<Rightarrow> None
             | Some (str, rest) \<Rightarrow> Some (PyStr str, rest))
          else if c = CHR ''{'' then
            (case skip_ws cs of
               [] \<Rightarrow> None
             | d # ds \<Rightarrow>
                 if d = CHR ''}'' then Some (PyDict [], ds)
                 else (case parse_object fo n (d # ds) [] of
                         None \<Rightarrow> None
                       | Some (pairs, rest) \<Rightarrow> Some (PyDict (dict_of_pairs pairs), rest)))
          else if c = CHR ''['' then
            (case skip_ws cs of
               [] \<Rightarrow> None
             | d # ds \<Rightarrow>
                 if d = CHR '']'' then Some (PyList [], ds)
                 else (case parse_array fo n (d # ds) [] of
                         None \<Rightarrow> None
                       | Some (values, rest) \<Rightarrow> Some (PyList values, rest)))
          else if take 4 s = ''null'' then Some (PyNone, drop 4 s)
          else if take 4 s = ''true'' then Some (PyBool True, drop 4 s)
          else if take 5 s = ''false'' then Some (PyBool False, drop 5 s)
          else (case match_number fo s of
                  Some r \<Rightarrow> Some r
                | None \<Rightarrow>
                    if take 3 s = ''NaN'' then Some (PyFloat NaN, drop 3 s)
                    else if take 8 s = ''Infinity'' then Some (PyFloat PosInf, drop 8 s)
                    else if take 9 s = ''-Infinity'' then Some (PyFloat NegInf, drop 9 s)
                    else None))"
| "parse_array fo 0 s values = None"
| "parse_array fo (Suc n) s values =
     (case scan_once fo n s of
        None \<Rightarrow> None
      | Some (v, rest) \<Rightarrow>
          (case skip_ws rest of
             [] \<Rightarrow> None
           | d # ds \<Rightarrow>
               if d = CHR '']'' then Some (values @ [v], ds)
               else if d = CHR '','' then parse_array fo n (skip_ws ds) (values @ [v])
               else None))"
| "parse_object fo 0 s pairs = None"
| "parse_object fo (Suc n) s pairs =
     (case s of
        [] \<Rightarrow> None
      | q # cs \<Rightarrow>
          if q \<noteq> CHR 0x22 then None
          else (case scanstring cs [] of
                  None \<Rightarrow> None
                | Some (key, r1) \<Rightarrow>
                    (case skip_ws r1 of
                       [] \<Rightarrow> None
                     | c # r2 \<Rightarrow>
                         if c \<noteq> CHR '':'' then None
                         else (case scan_once fo n (skip_ws r2) of
                                 None \<Rightarrow> None
                               | Some (v, r3) \<Rightarrow>
                                   (case skip_ws r3 of
                                      [] \<Rightarrow> None
                                    | d # ds \<Rightarrow>
                                        if d = CHR ''}'' then Some (pairs @ [(key, v)], ds)
                                        else if d = CHR '',''
                                        then parse_object fo n (skip_ws ds) (pairs @ [(key, v)])
                                        else None)))))"

text \<open>
  The whole text: blanks, one value, blanks, and nothing more. Of the error's message only
  this much is kept: whether a value was missing or malformed, or text followed it.
\<close>

definition json_loads_model :: "(string \<Rightarrow> real) \<Rightarrow> string \<Rightarrow> py_exception + py_value" where
  "json_loads_model fo s =
     (case scan_once fo (Suc (length s)) (skip_ws s) of
        None \<Rightarrow> Inl (JSONDecodeError ''Expecting value'')
      | Some (v, rest) \<Rightarrow>
          if skip_ws rest = [] then Inr v else Inl (JSONDecodeError ''Extra data''))"

subsection \<open>Values the text format gives back unchanged\<close>

text \<open>
  \<open>float_text\<close> holds of a text that the number pattern matches to its end, with a
  fraction or an exponent: the texts that are read as floats.
\<close>

definition float_text :: "string \<Rightarrow> bool" where
  "float_text t =
     (case match_integer t of
        None \<Rightarrow> False
      | Some (integer, r1) \<Rightarrow>
          (case match_frac r1 of
             (fraction, r2) \<Rightarrow>
               (case match_exp r2 of
                  (exponent, r3) \<Rightarrow> r3 = [] \<and> (fraction \<noteq> [] \<or> exponent \<noteq> []))))"

text \<open>
  \<open>floats_read_back\<close> holds of a value when, for every finite float in it, the text that
  \<^verbatim>\<open>float.__repr__\<close> gives is such a text and \<^verbatim>\<open>float\<close> reads it back as the same
  float. A value of Python has each key of a dictionary once; the association lists here
  can say more, and \<open>unique_keys\<close> keeps to those that are dictionaries. \<open>weight\<close> bounds
  what the parser's counter needs for a value, and \<open>terminated\<close> holds of what may follow
  a value in a text.
\<close>

fun floats_read_back :: "(real \<Rightarrow> string) \<Rightarrow> (string \<Rightarrow> real) \<Rightarrow> py_value \<Rightarrow> bool" where
  "floats_read_back fr fo (PyFloat f) =
     (case f of Finite r \<Rightarrow> float_text (fr r) \<and> fo (fr r) = r | _ \<Rightarrow> True)"
| "floats_read_back fr fo (PyList xs) = (\<forall>x \<in> set xs. floats_read_back fr fo x)"
| "floats_read_back fr fo (PyDict kvs) = (\<forall>(k, v) \<in> set kvs. floats_read_back fr fo v)"
| "floats_read_back fr fo v = True"

fun unique_keys :: "py_value \<Rightarrow> bool" where
  "unique_keys (PyList xs) = (\<forall>x \<in> set xs. unique_keys x)"
| "unique_keys (PyDict kvs) = (distinct (map fst kvs) \<and> (\<forall>(k, v) \<in> set kvs. unique_keys v))"
| "unique_keys v = True"

fun weight :: "py_value \<Rightarrow> nat" where
  "weight (PyList xs) = Suc (sum_list (map (\<lambda>x. Suc (weight x)) xs))"
| "weight (PyDict kvs) = Suc (sum_list (map (\<lambda>(k, v). Suc (weight v)) kvs))"
| "weight v = 1"

definition terminated :: "string \<Rightarrow> bool" where
  "terminated rest =
     (case rest of [] \<Rightarrow> True
      | c # cs \<Rightarrow> c = CHR '','' \<or> c = CHR '']'' \<or> c = CHR ''}'' \<or> is_ws c)"

section \<open>Reading a well-shaped output\<close>

lemma dict_get_dict:
  "is_dict r \<Longrightarrow> dict_get r k d = Inr (case item r k of Some v \<Rightarrow> v | None \<Rightarrow> d)"
  by (cases r) auto

lemma provisioning_output_readable: "provisioning_output out \<Longrightarrow> readable_output out"
  by (cases out)
     (auto simp: provisioning_output_def readable_output_def record_or_absent_def list_all_iff
           split: option.splits dest!: map_of_SomeD)

lemma record_get_value:
  assumes "is_dict out" and "record_or_absent out k"
  shows "\<exists>r. dict_get out k (PyDict []) = Inr r \<and>
             dict_get r ''value'' d = Inr (output_value_or out k d)"
proof (cases "item out k")
  case None
  then show ?thesis using assms by (simp add: dict_get_dict output_value_or_def)
next
  case (Some r)
  then have "is_dict r" using assms by (simp add: record_or_absent_def)
  then show ?thesis using Some assms
    by (simp add: dict_get_dict output_value_or_def split: option.splits)
qed

lemma extract_values_readable:
  assumes "readable_output out"
  shows "extract_values out s =
    (if \<not> truthy (output_value_or out ''ec2_public_ip'' (PyStr ''''))
     then (Inr (Return empty_inventory),
           print_stderr (Text ''Error: Could not get EC2 IP from terraform output'') s)
     else (Inr (Continue (output_value_or out ''ec2_public_ip'' (PyStr ''''),
                          output_value_or out ''vault_domain'' (PyStr ''vault.example.com''),
                          ''1.15.6'', ''vault-dev-root-token'')), s))"
proof -
  from assms have d: "is_dict out" and r: "record_or_absent out ''ec2_public_ip''"
    "record_or_absent out ''vault_domain''"
    by (simp_all add: readable_output_def)
  obtain r1 where r1: "dict_get out ''ec2_public_ip'' (PyDict []) = Inr r1"
     "dict_get r1 ''value'' (PyStr '''') = Inr (output_value_or out ''ec2_public_ip'' (PyStr ''''))"
    using record_get_value[OF d r(1)] by blast
  obtain r2 where r2: "dict_get out ''vault_domain'' (PyDict []) = Inr r2"
     "dict_get r2 ''value'' (PyStr ''vault.example.com'') =
        Inr (output_value_or out ''vault_domain'' (PyStr ''vault.example.com''))"
    using record_get_value[OF d r(2)] by blast
  show ?thesis unfolding extract_values_def by (simp add: r1 r2)
qed

text \<open>What the builder returns on a readable output, in one equation.\<close>

lemma generate_inventory_from_readable:
  assumes "readable_output out"
  shows "generate_inventory_from out s =
    (if \<not> truthy (output_value_or out ''ec2_public_ip'' (PyStr ''''))
     then (Inr empty_inventory,
           print_stderr (Text ''Error: Could not get EC2 IP from terraform output'') s)
     else (Inr (inventory_dict (output_value_or out ''ec2_public_ip'' (PyStr ''''))
                  (output_value_or out ''vault_domain'' (PyStr ''vault.example.com''))
                  ''1.15.6'' ''vault-dev-root-token''), s))"
  unfolding generate_inventory_from_def extract_values_readable[OF assms] by simp


subsection \<open>The two documents\<close>

lemma path_inventory_host:
  "path (inventory_dict a d ver tok)
     [''_meta'', ''hostvars'', ''vault_server'', ''ansible_host''] = Some a"
  by (simp add: inventory_dict_def)

lemma group_vars_inventory:
  "group_vars (inventory_dict a d ver tok) =
     [PyDict [(''vault_version'', PyStr ver), (''vault_domain'', d),
              (''vault_root_token'', PyStr tok)]]"
  by (simp add: inventory_dict_def group_vars_def)

lemma group_vars_empty: "group_vars empty_inventory = []"
  by (simp add: empty_inventory_def group_vars_def)

lemma referenced_hosts_inventory:
  "referenced_hosts (inventory_dict a d ver tok) = [PyStr ''vault_server'']"
  by (simp add: inventory_dict_def referenced_hosts_def group_hosts_def)

lemma hostvars_keys_inventory:
  "hostvars_keys (inventory_dict a d ver tok) = [PyStr ''vault_server'']"
  by (simp add: inventory_dict_def hostvars_keys_def)

lemma referenced_hosts_empty: "referenced_hosts empty_inventory = []"
  by (simp add: empty_inventory_def referenced_hosts_def)

lemma path_empty_hostvars: "path empty_inventory [''_meta'', ''hostvars''] = Some (PyDict [])"
  by (simp add: empty_inventory_def)

lemma group_names_empty: "group_names empty_inventory = []"
  by (simp add: empty_inventory_def group_names_def)

subsection \<open>The concrete inputs are ProvisioningOutputs\<close>

lemma provisioning_output_scenario: "provisioning_output scenario_output"
  by (simp add: provisioning_output_def scenario_output_def)

lemma provisioning_output_address_only: "provisioning_output address_only_output"
  by (simp add: provisioning_output_def address_only_output_def)

lemma provisioning_output_empty_address: "provisioning_output empty_address_output"
  by (simp add: provisioning_output_def empty_address_output_def)

lemma provisioning_output_no_outputs: "provisioning_output (PyDict [])"
  by (simp add: provisioning_output_def)

section \<open>The builder\<close>

text \<open>
  C1. For every ProvisioningOutput that has an output \<open>ec2_public_ip\<close> whose record has a
  non-empty \<open>value\<close> (a value Python takes as true: a non-empty string, sequence or
  mapping), the builder returns a document, reports nothing, and the document's
  \<open>_meta.hostvars.vault_server.ansible_host\<close> is exactly that value.
\<close>

theorem ansible_host_is_address:
  assumes "provisioning_output out"
    and "path out [''ec2_public_ip'', ''value''] = Some v"
    and "truthy v"
  shows "\<exists>doc. generate_inventory_from out s = (Inr doc, s) \<and>
           path doc [''_meta'', ''hostvars'', ''vault_server'', ''ansible_host''] = Some v"
proof -
  have v: "output_value_or out ''ec2_public_ip'' (PyStr '''') = v"
    using assms(2) by (simp add: output_value_or_def)
  have "generate_inventory_from out s =
          (Inr (inventory_dict v
                  (output_value_or out ''vault_domain'' (PyStr ''vault.example.com''))
                  ''1.15.6'' ''vault-dev-root-token''), s)"
    using assms(3) provisioning_output_readable[OF assms(1)]
    by (simp add: generate_inventory_from_readable v)
  then show ?thesis
    using path_inventory_host by blast
qed

theorem ansible_host_is_address_witness:
  "provisioning_output scenario_output \<and>
   path scenario_output [''ec2_public_ip'', ''value''] = Some (PyStr ''203.0.113.10'') \<and>
   truthy (PyStr ''203.0.113.10'') \<and>
   (\<exists>doc. generate_inventory_from scenario_output fresh_io = (Inr doc, fresh_io) \<and>
      path doc [''_meta'', ''hostvars'', ''vault_server'', ''ansible_host'']
        = Some (PyStr ''203.0.113.10''))"
proof -
  have h1: "provisioning_output scenario_output"
    by (rule provisioning_output_scenario)
  have h2: "path scenario_output [''ec2_public_ip'', ''value''] = Some (PyStr ''203.0.113.10'')"
    by (simp add: scenario_output_def)
  have h3: "truthy (PyStr ''203.0.113.10'')"
    by simp
  from ansible_host_is_address[OF h1 h2 h3, of fresh_io] h1 h2 h3 show ?thesis
    by blast
qed

text \<open>
  C2. For every ProvisioningOutput in which the output \<open>ec2_public_ip\<close> is absent, or its
  record has no \<open>value\<close>, or the value is empty (one Python takes as false), the builder
  reports the missing address on the error stream and returns the empty-inventory
  sentinel: \<open>_meta.hostvars\<close> is the empty mapping and the document has no group.
\<close>

theorem missing_address_empty_inventory:
  assumes "provisioning_output out"
    and "path out [''ec2_public_ip'', ''value''] = None \<or>
         (\<exists>v. path out [''ec2_public_ip'', ''value''] = Some v \<and> \<not> truthy v)"
  shows "\<exists>doc. generate_inventory_from out s =
           (Inr doc,
            print_stderr (Text ''Error: Could not get EC2 IP from terraform output'') s) \<and>
         path doc [''_meta'', ''hostvars''] = Some (PyDict []) \<and> group_names doc = []"
proof -
  have "\<not> truthy (output_value_or out ''ec2_public_ip'' (PyStr ''''))"
    using assms(2) by (auto simp: output_value_or_def)
  then have "generate_inventory_from out s =
           (Inr empty_inventory,
            print_stderr (Text ''Error: Could not get EC2 IP from terraform output'') s)"
    using provisioning_output_readable[OF assms(1)]
    by (simp add: generate_inventory_from_readable)
  then show ?thesis
    using path_empty_hostvars group_names_empty by blast
qed

theorem missing_address_empty_inventory_witness:
  "(\<exists>doc. generate_inventory_from (PyDict []) fresh_io =
           (Inr doc, \<lparr>sys_stdout = [],
                      sys_stderr = [Text ''Error: Could not get EC2 IP from terraform output'']\<rparr>) \<and>
         path doc [''_meta'', ''hostvars''] = Some (PyDict []) \<and> group_names doc = []) \<and>
   (\<exists>doc. generate_inventory_from empty_address_output fresh_io =
           (Inr doc, \<lparr>sys_stdout = [],
                      sys_stderr = [Text ''Error: Could not get EC2 IP from terraform output'']\<rparr>) \<and>
         path doc [''_meta'', ''hostvars''] = Some (PyDict []) \<and> group_names doc = [])"
proof -
  have a: "path (PyDict []) [''ec2_public_ip'', ''value''] = None \<or>
         (\<exists>v. path (PyDict []) [''ec2_public_ip'', ''value''] = Some v \<and> \<not> truthy v)"
    by simp
  have b: "path empty_address_output [''ec2_public_ip'', ''value''] = None \<or>
         (\<exists>v. path empty_address_output [''ec2_public_ip'', ''value''] = Some v \<and> \<not> truthy v)"
    by (simp add: empty_address_output_def)
  have p: "print_stderr (Text ''Error: Could not get EC2 IP from terraform output'') fresh_io =
             \<lparr>sys_stdout = [],
              sys_stderr = [Text ''Error: Could not get EC2 IP from terraform output'']\<rparr>"
    by (simp add: print_stderr_def fresh_io_def)
  from missing_address_empty_inventory[OF provisioning_output_no_outputs a, of fresh_io]
       missing_address_empty_inventory[OF provisioning_output_empty_address b, of fresh_io]
  show ?thesis unfolding p by blast
qed

text \<open>
  C6. For every ProvisioningOutput the builder returns a document in which every group's
  \<open>vars\<close> carry as \<open>vault_domain\<close> the fixed default \<open>vault.example.com\<close> when the
  output has no \<open>vault_domain\<close> value, and the provided value itself when it has one. The
  document has group vars exactly when the address is present and non-empty.
\<close>

theorem vault_domain_default_or_verbatim:
  assumes "provisioning_output out"
  shows "\<exists>doc s'. generate_inventory_from out s = (Inr doc, s') \<and>
     (path out [''vault_domain'', ''value''] = None \<longrightarrow>
        list_all (\<lambda>vars. item vars ''vault_domain'' = Some (PyStr ''vault.example.com''))
          (group_vars doc)) \<and>
     (\<forall>v. path out [''vault_domain'', ''value''] = Some v \<longrightarrow>
        list_all (\<lambda>vars. item vars ''vault_domain'' = Some v) (group_vars doc)) \<and>
     (group_vars doc \<noteq> [] \<longleftrightarrow>
        (\<exists>a. path out [''ec2_public_ip'', ''value''] = Some a \<and> truthy a))"
proof (cases "truthy (output_value_or out ''ec2_public_ip'' (PyStr ''''))")
  case True
  then have a: "\<exists>a. path out [''ec2_public_ip'', ''value''] = Some a \<and> truthy a"
    by (auto simp: output_value_or_def split: option.splits)
  have "generate_inventory_from out s =
          (Inr (inventory_dict (output_value_or out ''ec2_public_ip'' (PyStr ''''))
                  (output_value_or out ''vault_domain'' (PyStr ''vault.example.com''))
                  ''1.15.6'' ''vault-dev-root-token''), s)"
    using True provisioning_output_readable[OF assms]
    by (simp add: generate_inventory_from_readable)
  then show ?thesis
    using a by (simp add: group_vars_inventory output_value_or_def)
next
  case False
  then have a: "\<not> (\<exists>a. path out [''ec2_public_ip'', ''value''] = Some a \<and> truthy a)"
    by (auto simp: output_value_or_def)
  have "generate_inventory_from out s =
          (Inr empty_inventory,
           print_stderr (Text ''Error: Could not get EC2 IP from terraform output'') s)"
    using False provisioning_output_readable[OF assms]
    by (simp add: generate_inventory_from_readable)
  then show ?thesis
    using a by (simp add: group_vars_empty)
qed

theorem vault_domain_default_or_verbatim_witness:
  "(\<exists>doc s'. generate_inventory_from address_only_output fresh_io = (Inr doc, s') \<and>
      group_vars doc \<noteq> [] \<and>
      list_all (\<lambda>vars. item vars ''vault_domain'' = Some (PyStr ''vault.example.com''))
        (group_vars doc)) \<and>
   (\<exists>doc s'. generate_inventory_from scenario_output fresh_io = (Inr doc, s') \<and>
      group_vars doc \<noteq> [] \<and>
      list_all (\<lambda>vars. item vars ''vault_domain'' = Some (PyStr ''vault.test''))
        (group_vars doc))"
proof -
  have a1: "path address_only_output [''vault_domain'', ''value''] = None"
    by (simp add: address_only_output_def)
  have a2: "\<exists>a. path address_only_output [''ec2_public_ip'', ''value''] = Some a \<and> truthy a"
    by (simp add: address_only_output_def)
  have b1: "path scenario_output [''vault_domain'', ''value''] = Some (PyStr ''vault.test'')"
    by (simp add: scenario_output_def)
  have b2: "\<exists>a. path scenario_output [''ec2_public_ip'', ''value''] = Some a \<and> truthy a"
    by (simp add: scenario_output_def)
  from vault_domain_default_or_verbatim[OF provisioning_output_address_only, of fresh_io] a1 a2
  have 1: "\<exists>doc s'. generate_inventory_from address_only_output fresh_io = (Inr doc, s') \<and>
      group_vars doc \<noteq> [] \<and>
      list_all (\<lambda>vars. item vars ''vault_domain'' = Some (PyStr ''vault.example.com''))
        (group_vars doc)"
    by blast
  from vault_domain_default_or_verbatim[OF provisioning_output_scenario, of fresh_io] b1 b2
  have 2: "\<exists>doc s'. generate_inventory_from scenario_output fresh_io = (Inr doc, s') \<and>
      group_vars doc \<noteq> [] \<and>
      list_all (\<lambda>vars. item vars ''vault_domain'' = Some (PyStr ''vault.test''))
        (group_vars doc)"
    by blast
  from 1 2 show ?thesis ..
qed

text \<open>
  C7. For every ProvisioningOutput the builder returns a document in which every host
  identifier that a group's \<open>hosts\<close> names is a key of \<open>_meta.hostvars\<close>, for the
  one-group document and for the empty-inventory sentinel alike.
\<close>

theorem hosts_have_hostvars:
  assumes "provisioning_output out"
  shows "\<exists>doc s'. generate_inventory_from out s = (Inr doc, s') \<and>
           set (referenced_hosts doc) \<subseteq> set (hostvars_keys doc)"
proof (cases "truthy (output_value_or out ''ec2_public_ip'' (PyStr ''''))")
  case True
  then show ?thesis
    using provisioning_output_readable[OF assms]
    by (simp add: generate_inventory_from_readable referenced_hosts_inventory
          hostvars_keys_inventory)
next
  case False
  then show ?thesis
    using provisioning_output_readable[OF assms]
    by (simp add: generate_inventory_from_readable referenced_hosts_empty)
qed

theorem hosts_have_hostvars_witness:
  "provisioning_output scenario_output \<and>
   (\<exists>doc s'. generate_inventory_from scenario_output fresh_io = (Inr doc, s') \<and>
      set (referenced_hosts doc) \<subseteq> set (hostvars_keys doc) \<and>
      referenced_hosts doc = [PyStr ''vault_server''])"
proof -
  obtain doc s' where d: "generate_inventory_from scenario_output fresh_io = (Inr doc, s')"
      "set (referenced_hosts doc) \<subseteq> set (hostvars_keys doc)"
    using hosts_have_hostvars[OF provisioning_output_scenario, of fresh_io] by blast
  have "truthy (output_value_or scenario_output ''ec2_public_ip'' (PyStr ''''))"
    by (simp add: output_value_or_def scenario_output_def)
  then have "generate_inventory_from scenario_output fresh_io =
      (Inr (inventory_dict (output_value_or scenario_output ''ec2_public_ip'' (PyStr ''''))
              (output_value_or scenario_output ''vault_domain'' (PyStr ''vault.example.com''))
              ''1.15.6'' ''vault-dev-root-token''), fresh_io)"
    using provisioning_output_readable[OF provisioning_output_scenario]
    by (simp add: generate_inventory_from_readable)
  then have "referenced_hosts doc = [PyStr ''vault_server'']"
    using d(1) by (auto simp: referenced_hosts_inventory)
  then show ?thesis
    using d provisioning_output_scenario by blast
qed



lemma item_eq_dict_get:
  assumes "is_dict out1" and "is_dict out2" and "item out1 k = item out2 k"
  shows "dict_get out1 k d = dict_get out2 k d"
  using assms by (cases out1; cases out2) simp_all

text \<open>
  C10. Two ProvisioningOutput mappings that agree on their entries at \<open>ec2_public_ip\<close> and
  \<open>vault_domain\<close> give the same result and the same reports: no other entry of the
  output reaches the builder.
\<close>

theorem other_outputs_ignored:
  assumes "is_dict out1" and "is_dict out2"
    and "item out1 ''ec2_public_ip'' = item out2 ''ec2_public_ip''"
    and "item out1 ''vault_domain'' = item out2 ''vault_domain''"
  shows "generate_inventory_from out1 s = generate_inventory_from out2 s"
proof -
  have "extract_values out1 s = extract_values out2 s"
    unfolding extract_values_def item_eq_dict_get[OF assms(1,2,3)]
      item_eq_dict_get[OF assms(1,2,4)] ..
  then show ?thesis
    by (simp add: generate_inventory_from_def)
qed

theorem other_outputs_ignored_witness:
  "item larger_output ''instance_id'' \<noteq> item scenario_output ''instance_id'' \<and>
   generate_inventory_from larger_output fresh_io =
     generate_inventory_from scenario_output fresh_io"
proof -
  have 1: "is_dict larger_output" and 2: "is_dict scenario_output"
    by (simp_all add: larger_output_def scenario_output_def)
  have 3: "item larger_output ''ec2_public_ip'' = item scenario_output ''ec2_public_ip''"
    by (simp add: larger_output_def scenario_output_def)
  have 4: "item larger_output ''vault_domain'' = item scenario_output ''vault_domain''"
    by (simp add: larger_output_def scenario_output_def)
  have 5: "item larger_output ''instance_id'' \<noteq> item scenario_output ''instance_id''"
    by (simp add: larger_output_def scenario_output_def)
  from other_outputs_ignored[OF 1 2 3 4, of fresh_io] 5 show ?thesis
    by blast
qed

text \<open>
  No lookup of the \<^verbatim>\<open>try\<close> raises KeyError, on any value: the handler of line 48 is
  never entered.
\<close>

lemma dict_get_not_KeyError: "dict_get v k d \<noteq> Inl (KeyError x)"
  by (cases v) simp_all

lemma extract_values_not_KeyError: "fst (extract_values out s) \<noteq> Inl (KeyError x)"
  by (auto simp: extract_values_def dict_get_not_KeyError split: sum.splits)

text \<open>
  An output whose address entry is not a record:
  the lookup of \<open>value\<close> on the string raises AttributeError, which the handler for
  KeyError does not catch, and the exception leaves the builder.
\<close>

theorem non_mapping_record_raises:
  "generate_inventory_from (PyDict [(''ec2_public_ip'', PyStr ''203.0.113.10'')]) fresh_io =
     (Inl (AttributeError ''str'' ''get''), fresh_io)"
  by (simp add: generate_inventory_from_def extract_values_def)

text \<open>
  C5, amended. For every ProvisioningOutput mapping whose entries at \<open>ec2_public_ip\<close> and
  \<open>vault_domain\<close> are mappings when present, no lookup of the builder fails: it returns a
  document and propagates no exception, and a lookup that finds no address (the entry or
  its \<open>value\<close> is missing) is reported and gives the empty-inventory sentinel.
\<close>

theorem readable_output_never_raises:
  assumes "readable_output out"
  shows "\<exists>doc s'. generate_inventory_from out s = (Inr doc, s') \<and>
          (path out [''ec2_public_ip'', ''value''] = None \<longrightarrow>
             doc = empty_inventory \<and>
             s' = print_stderr (Text ''Error: Could not get EC2 IP from terraform output'') s)"
  using assms by (auto simp add: generate_inventory_from_readable output_value_or_def)

theorem readable_output_never_raises_witness:
  "readable_output (PyDict [(''other'', PyInt 5)]) \<and>
   \<not> provisioning_output (PyDict [(''other'', PyInt 5)]) \<and>
   generate_inventory_from (PyDict [(''other'', PyInt 5)]) fresh_io =
     (Inr empty_inventory,
      print_stderr (Text ''Error: Could not get EC2 IP from terraform output'') fresh_io)"
proof -
  have r: "readable_output (PyDict [(''other'', PyInt 5)])"
    by (simp add: readable_output_def record_or_absent_def)
  have n: "\<not> provisioning_output (PyDict [(''other'', PyInt 5)])"
    by (simp add: provisioning_output_def)
  have p: "path (PyDict [(''other'', PyInt 5)]) [''ec2_public_ip'', ''value''] = None"
    by simp
  from readable_output_never_raises[OF r, of fresh_io] p r n show ?thesis
    by auto
qed

section \<open>The reader\<close>





text \<open>
  Two runs in which the reader raises. In the first the command exits with status 1 and
  its output holds bytes that are not text: reading the output raises UnicodeDecodeError
  before the exit status is looked at. In the second the command exits with status 0 and
  prints 100000 opening brackets, which is not valid structured data, and \<^verbatim>\<open>json.loads\<close>
  raises RecursionError. Neither exception is one of the two that the reader handles;
  nothing is written and the exception leaves the reader.
\<close>

theorem reader_raises_unhandled:
  "popen world_undecodable [''terraform'', ''output'', ''-json''] ''/repo'' =
     Inr \<lparr>exit_status = 1, communicate = Inl (OtherException ''UnicodeDecodeError'')\<rparr> \<and>
   get_terraform_output world_undecodable fresh_io =
     (Inl (OtherException ''UnicodeDecodeError''), fresh_io) \<and>
   popen world_deeply_nested [''terraform'', ''output'', ''-json''] ''/repo'' =
     Inr \<lparr>exit_status = 0, communicate = Inr (replicate 100000 (CHR ''[''))\<rparr> \<and>
   json_loads world_deeply_nested (replicate 100000 (CHR ''['')) =
     Inl (OtherException ''RecursionError'') \<and>
   get_terraform_output world_deeply_nested fresh_io =
     (Inl (OtherException ''RecursionError''), fresh_io)"
  by (simp add: get_terraform_output_def subprocess_run_def world_undecodable_def
        world_deeply_nested_def world_def world_of_def)

text \<open>
  C4, amended. In every run of the reader in which the provisioning command is started and
  its captured output is read as text, and the command exits with a non-zero status, or
  exits with status 0 and \<^verbatim>\<open>json.loads\<close> rejects the text with JSONDecodeError, the reader
  raises nothing: it writes one line about the failure to the error stream and returns
  the empty mapping.
\<close>

theorem reader_degrades_to_empty:
  assumes "popen env [''terraform'', ''output'', ''-json'']
             (os_path_dirname env (os_path_dirname env (file_abspath env))) = Inr process"
    and "communicate process = Inr printed"
  shows "(exit_status process \<noteq> 0 \<longrightarrow>
            get_terraform_output env s =
              (Inr (PyDict []),
               print_stderr (Formatted ''Error running terraform output: ''
                               (CalledProcessError (exit_status process))) s)) \<and>
         (exit_status process = 0 \<and> json_loads env printed = Inl (JSONDecodeError msg) \<longrightarrow>
            get_terraform_output env s =
              (Inr (PyDict []),
               print_stderr (Formatted ''Error parsing terraform output: ''
                               (JSONDecodeError msg)) s))"
  using assms by (simp add: get_terraform_output_def subprocess_run_def)

theorem reader_degrades_to_empty_witness:
  "get_terraform_output (world 1 '''' (Inr scenario_output)) fresh_io =
     (Inr (PyDict []),
      \<lparr>sys_stdout = [],
       sys_stderr = [Formatted ''Error running terraform output: '' (CalledProcessError 1)]\<rparr>) \<and>
   get_terraform_output (world 0 ''not json'' (Inl (JSONDecodeError ''Expecting value''))) fresh_io =
     (Inr (PyDict []),
      \<lparr>sys_stdout = [],
       sys_stderr = [Formatted ''Error parsing terraform output: ''
                       (JSONDecodeError ''Expecting value'')]\<rparr>)"
proof -
  let ?failed = "world 1 '''' (Inr scenario_output)"
  let ?garbled = "world 0 ''not json'' (Inl (JSONDecodeError ''Expecting value''))"
  have 1: "popen ?failed [''terraform'', ''output'', ''-json'']
             (os_path_dirname ?failed (os_path_dirname ?failed (file_abspath ?failed)))
           = Inr \<lparr>exit_status = 1, communicate = Inr ''''\<rparr>"
    by (simp add: world_def world_of_def)
  have 2: "popen ?garbled [''terraform'', ''output'', ''-json'']
             (os_path_dirname ?garbled (os_path_dirname ?garbled (file_abspath ?garbled)))
           = Inr \<lparr>exit_status = 0, communicate = Inr ''not json''\<rparr>"
    by (simp add: world_def world_of_def)
  have 3: "json_loads ?garbled ''not json'' = Inl (JSONDecodeError ''Expecting value'')"
    by (simp add: world_def world_of_def)
  from reader_degrades_to_empty[OF 1, where s = fresh_io and printed = "''''"]
       reader_degrades_to_empty[OF 2, where s = fresh_io and printed = "''not json''"
          and msg = "''Expecting value''"] 3
  show ?thesis
    by (simp add: print_stderr_def fresh_io_def)
qed

section \<open>The dispatcher\<close>








section \<open>Serializing and reading back\<close>

subsection \<open>Strings\<close>

lemma hex_val_hex_digit: "n < 16 \<Longrightarrow> hex_val (hex_digit n) = Some n"
  by (simp add: hex_digit_def hex_val_def)

lemma hex_val_zero: "hex_val CHR ''0'' = Some 0"
  by (simp add: hex_val_def)

lemma decode_escape:
  "decode_uXXXX CHR ''0'' CHR ''0'' (hex_digit (of_char c div 16)) (hex_digit (of_char c mod 16))
     = Some (of_char c)"
proof -
  have "(of_char c :: nat) < 256" by simp
  then have "(of_char c :: nat) div 16 < 16" by arith
  moreover have "(of_char c :: nat) mod 16 < 16" by simp
  ultimately show ?thesis
    by (simp add: decode_uXXXX_def hex_val_hex_digit hex_val_zero)
qed

lemma scanstring_escape_char:
  "scanstring (escape_char c @ t) acc = scanstring t (acc @ [c])"
proof -
  consider (special) "c = CHR 0x22 \<or> c = CHR 0x5C \<or> c = CHR 0x08 \<or> c = CHR 0x0C
        \<or> c = CHR 0x0A \<or> c = CHR 0x0D \<or> c = CHR 0x09"
    | (plain) "\<not> (c = CHR 0x22 \<or> c = CHR 0x5C \<or> c = CHR 0x08 \<or> c = CHR 0x0C
        \<or> c = CHR 0x0A \<or> c = CHR 0x0D \<or> c = CHR 0x09)"
        "32 \<le> (of_char c :: nat) \<and> (of_char c :: nat) \<le> 126"
    | (other) "\<not> (c = CHR 0x22 \<or> c = CHR 0x5C \<or> c = CHR 0x08 \<or> c = CHR 0x0C
        \<or> c = CHR 0x0A \<or> c = CHR 0x0D \<or> c = CHR 0x09)"
        "\<not> (32 \<le> (of_char c :: nat) \<and> (of_char c :: nat) \<le> 126)"
    by blast
  then show ?thesis
  proof cases
    case special
    then show ?thesis
      by (auto simp: escape_char_def backslash_def)
  next
    case plain
    then show ?thesis
      by (simp add: escape_char_def)
  next
    case other
    have "(of_char c :: nat) < 256" by simp
    then show ?thesis
      using other by (simp add: escape_char_def decode_escape)
  qed
qed

lemma scanstring_escaped:
  "scanstring (concat (map escape_char s) @ CHR 0x22 # rest) acc = Some (acc @ s, rest)"
  by (induction s arbitrary: acc) (simp_all add: scanstring_escape_char)

lemma scanstring_encoded:
  "encode_basestring_ascii s @ rest = CHR 0x22 # t \<Longrightarrow> scanstring t [] = Some (s, rest)"
  using scanstring_escaped[of s rest "[]"] by (simp add: encode_basestring_ascii_def)

subsection \<open>Numbers\<close>

lemma is_digit_hex_digit: "d < 10 \<Longrightarrow> is_digit (hex_digit d)"
  by (simp add: is_digit_def hex_digit_def)

lemma of_char_hex_digit: "d < 10 \<Longrightarrow> (of_char (hex_digit d) :: nat) = 48 + d"
  by (simp add: hex_digit_def)

lemma hex_digit_zero: "d < 10 \<Longrightarrow> hex_digit d = CHR ''0'' \<longleftrightarrow> d = 0"
proof -
  assume d: "d < 10"
  have "hex_digit d = CHR ''0'' \<longleftrightarrow> (of_char (hex_digit d) :: nat) = of_char CHR ''0''"
    by (metis of_char_eq_iff)
  then show ?thesis using d by (simp add: of_char_hex_digit)
qed

lemma digits_not_Nil: "digits n \<noteq> []"
  by (subst digits.simps) simp

lemma digits_all_digit: "c \<in> set (digits n) \<Longrightarrow> is_digit c"
proof (induction n arbitrary: c rule: digits.induct)
  case (1 n)
  show ?case
  proof (cases "n < 10")
    case True
    then show ?thesis using "1.prems" by (subst (asm) digits.simps) (simp add: is_digit_hex_digit)
  next
    case False
    then have "c \<in> set (digits (n div 10)) \<or> c = hex_digit (n mod 10)"
      using "1.prems" by (subst (asm) digits.simps) auto
    then show ?thesis
      using "1.IH"[OF False] by (auto simp: is_digit_hex_digit)
  qed
qed

lemma digits_hd_zero: "hd (digits n) = CHR ''0'' \<Longrightarrow> n = 0"
proof (induction n rule: digits.induct)
  case (1 n)
  show ?case
  proof (cases "n < 10")
    case True
    then show ?thesis using "1.prems" by (subst (asm) digits.simps) (simp add: hex_digit_zero)
  next
    case False
    then have "hd (digits (n div 10)) = CHR ''0''"
      using "1.prems" by (subst (asm) digits.simps) (simp add: digits_not_Nil)
    then have "n div 10 = 0" using "1.IH"[OF False] by simp
    then show ?thesis using False by simp
  qed
qed

lemma digits_zero: "digits 0 = ''0''"
  using hex_digit_zero[of 0] by (subst digits.simps) simp

lemma digits_val_snoc: "digits_val (ds @ [c]) = 10 * digits_val ds + (of_char c - 48)"
  by (simp add: digits_val_def)

lemma digits_val_digits: "digits_val (digits n) = n"
proof (induction n rule: digits.induct)
  case (1 n)
  show ?case
  proof (cases "n < 10")
    case True
    then show ?thesis
      by (subst digits.simps) (simp add: digits_val_def of_char_hex_digit)
  next
    case False
    then show ?thesis
      using "1.IH"[OF False]
      by (subst digits.simps) (simp add: digits_val_snoc of_char_hex_digit)
  qed
qed

lemma terminated_no_digit: "terminated rest \<Longrightarrow> rest = [] \<or> \<not> is_digit (hd rest)"
  by (cases rest) (auto simp: terminated_def is_digit_def is_ws_def)

lemma match_digits:
  assumes "terminated rest"
  shows "match_integer (digits n @ rest) = Some (digits n, rest)"
proof -
  obtain d ds where ds: "digits n = d # ds"
    using digits_not_Nil by (cases "digits n") auto
  have d: "is_digit d" and all: "\<And>x. x \<in> set ds \<Longrightarrow> is_digit x"
    using digits_all_digit[of _ n] ds by auto
  have minus: "d \<noteq> CHR ''-''"
    using d by (auto simp: is_digit_def)
  have tw: "takeWhile is_digit (ds @ rest) = ds" and dw: "dropWhile is_digit (ds @ rest) = rest"
    using all terminated_no_digit[OF assms]
    by (auto simp: takeWhile_append2 dropWhile_append2 takeWhile_eq_Nil_iff dropWhile_eq_self_iff)
  show ?thesis
  proof (cases "d = CHR ''0''")
    case True
    then have "n = 0" using digits_hd_zero[of n] ds by simp
    then have "ds = []" using ds digits_zero by simp
    then show ?thesis using True d minus ds by (simp add: match_integer_def)
  next
    case False
    then show ?thesis using d minus ds tw dw by (simp add: match_integer_def)
  qed
qed

lemma match_int_repr:
  assumes "terminated rest"
  shows "match_integer (int_repr i @ rest) = Some (int_repr i, rest)"
proof (cases "i < 0")
  case False
  then show ?thesis using match_digits[OF assms] by (simp add: int_repr_def)
next
  case True
  obtain d ds where ds: "digits (nat (- i)) = d # ds"
    using digits_not_Nil by (cases "digits (nat (- i))") auto
  have d: "is_digit d" and all: "\<And>x. x \<in> set ds \<Longrightarrow> is_digit x"
    using digits_all_digit[of _ "nat (- i)"] ds by auto
  have nz: "d \<noteq> CHR ''0''"
    using digits_hd_zero[of "nat (- i)"] ds True by auto
  have tw: "takeWhile is_digit (ds @ rest) = ds" and dw: "dropWhile is_digit (ds @ rest) = rest"
    using all terminated_no_digit[OF assms]
    by (auto simp: takeWhile_append2 dropWhile_append2 takeWhile_eq_Nil_iff dropWhile_eq_self_iff)
  show ?thesis
    using True ds d nz tw dw by (simp add: int_repr_def match_integer_def)
qed

lemma parse_int_repr: "parse_int (int_repr i) = i"
proof (cases "i < 0")
  case True
  then show ?thesis by (simp add: parse_int_def int_repr_def digits_val_digits)
next
  case False
  obtain d ds where ds: "digits (nat i) = d # ds"
    using digits_not_Nil by (cases "digits (nat i)") auto
  have "is_digit d" using digits_all_digit[of _ "nat i"] ds by auto
  then have "d \<noteq> CHR ''-''" by (auto simp: is_digit_def)
  then have "parse_int (digits (nat i)) = int (digits_val (digits (nat i)))"
    using ds by (simp add: parse_int_def)
  then show ?thesis using False by (simp add: int_repr_def digits_val_digits)
qed

lemma match_frac_terminated: "terminated rest \<Longrightarrow> match_frac rest = ([], rest)"
  by (cases rest) (auto simp: terminated_def match_frac_def is_ws_def split: list.splits)

lemma match_exp_terminated: "terminated rest \<Longrightarrow> match_exp rest = ([], rest)"
  by (cases rest) (auto simp: terminated_def match_exp_def is_ws_def)

lemma match_number_int_repr:
  assumes "terminated rest"
  shows "match_number fo (int_repr i @ rest) = Some (PyInt i, rest)"
  using assms
  by (simp add: match_number_def match_int_repr match_frac_terminated match_exp_terminated
        parse_int_repr)

lemma int_repr_first: "\<exists>c cs. int_repr i = c # cs \<and> (c = CHR ''-'' \<or> is_digit c)"
proof (cases "i < 0")
  case True
  then show ?thesis by (simp add: int_repr_def)
next
  case False
  obtain d ds where ds: "digits (nat i) = d # ds"
    using digits_not_Nil by (cases "digits (nat i)") auto
  have "is_digit d" using digits_all_digit[of _ "nat i"] ds by auto
  then show ?thesis using False ds by (simp add: int_repr_def)
qed

lemma span_digits_terminated:
  assumes "terminated rest"
  shows "takeWhile is_digit (ds @ rest) = takeWhile is_digit ds"
    and "dropWhile is_digit (ds @ rest) = dropWhile is_digit ds @ rest"
proof -
  have r: "rest = [] \<or> \<not> is_digit (hd rest)"
    using assms by (rule terminated_no_digit)
  show "takeWhile is_digit (ds @ rest) = takeWhile is_digit ds"
    using r by (induction ds) (auto simp: takeWhile_eq_Nil_iff)
  show "dropWhile is_digit (ds @ rest) = dropWhile is_digit ds @ rest"
    using r by (induction ds) (auto simp: dropWhile_eq_self_iff)
qed

lemma match_integer_append:
  assumes "terminated rest" and "match_integer t = Some (i, r)"
  shows "match_integer (t @ rest) = Some (i, r @ rest) \<and> t = i @ r"
proof (cases t)
  case Nil
  then show ?thesis using assms(2) by (simp add: match_integer_def)
next
  case (Cons c cs)
  show ?thesis
  proof (cases "c = CHR ''-''")
    case True
    then obtain d ds where cs: "cs = d # ds"
      using assms(2) Cons by (cases cs) (auto simp: match_integer_def)
    then show ?thesis
      using assms(2) Cons True span_digits_terminated[OF assms(1)]
      by (auto simp: match_integer_def split: if_splits)
  next
    case False
    then show ?thesis
      using assms(2) Cons span_digits_terminated[OF assms(1)]
      by (auto simp: match_integer_def split: if_splits)
  qed
qed

lemma terminated_first:
  assumes "terminated (c # cs)"
  shows "c \<noteq> CHR ''.''" "c \<noteq> CHR ''e''" "c \<noteq> CHR ''E''" "c \<noteq> CHR ''-''" "c \<noteq> CHR ''+''"
    "\<not> is_digit c"
  using assms by (auto simp: terminated_def is_ws_def is_digit_def)

lemma match_frac_append:
  assumes "terminated rest" and "match_frac t = (f, r)"
  shows "match_frac (t @ rest) = (f, r @ rest) \<and> t = f @ r"
proof (cases t)
  case Nil
  then show ?thesis
    using assms match_frac_terminated[OF assms(1)] by (simp add: match_frac_def)
next
  case (Cons c cs)
  show ?thesis
  proof (cases cs)
    case Nil
    show ?thesis
    proof (cases rest)
      case Nil
      then show ?thesis using assms(2) \<open>t = c # cs\<close> \<open>cs = []\<close> by (auto simp: match_frac_def)
    next
      case (Cons x xs)
      then have "\<not> is_digit x" using assms(1) terminated_first(6) by blast
      then show ?thesis
        using assms(2) \<open>t = c # cs\<close> \<open>cs = []\<close> Cons by (auto simp: match_frac_def)
    qed
  next
    case (Cons d ds)
    then show ?thesis
      using assms(2) \<open>t = c # cs\<close> span_digits_terminated[OF assms(1)]
      by (auto simp: match_frac_def split: if_splits)
  qed
qed


lemma match_exp_append:
  assumes "terminated rest" and "match_exp t = (e, r)"
  shows "match_exp (t @ rest) = (e, r @ rest) \<and> t = e @ r"
proof -
  have head: "\<And>x xs. rest = x # xs \<Longrightarrow>
                 x \<noteq> CHR ''-'' \<and> x \<noteq> CHR ''+'' \<and> \<not> is_digit x \<and> x \<noteq> CHR ''e'' \<and> x \<noteq> CHR ''E''"
    using assms(1) terminated_first by blast
  show ?thesis
  proof (cases t)
    case Nil
    then show ?thesis
      using assms match_exp_terminated[OF assms(1)] by (simp add: match_exp_def)
  next
    case (Cons c cs)
    note t = Cons
    show ?thesis
    proof (cases "c = CHR ''e'' \<or> c = CHR ''E''")
      case False
      then show ?thesis using assms(2) t by (auto simp: match_exp_def)
    next
      case True
      note c = True
      show ?thesis
      proof (cases cs)
        case Nil
        have "match_exp [c] = ([], [c])"
          using c by (auto simp: match_exp_def)
        then have er: "e = []" "r = [c]" using assms(2) t Nil by simp_all
        have "match_exp (c # rest) = ([], c # rest)"
          using head c by (cases rest) (auto simp: match_exp_def)
        then show ?thesis using er t Nil by simp
      next
        case (Cons x xs)
        note cs = Cons
        show ?thesis
        proof (cases "x = CHR ''-'' \<or> x = CHR ''+''")
          case True
          note sign = True
          show ?thesis
          proof (cases xs)
            case Nil
            have "match_exp [c, x] = ([], [c, x])"
              using c sign by (auto simp: match_exp_def)
            then have er: "e = []" "r = [c, x]" using assms(2) t cs Nil by simp_all
            have "match_exp (c # x # rest) = ([], c # x # rest)"
              using head c sign by (cases rest) (auto simp: match_exp_def)
            then show ?thesis using er t cs Nil by simp
          next
            case (Cons d ds)
            show ?thesis
            proof (cases "is_digit d")
              case True
              have "match_exp (c # x # d # ds) =
                      (c # x # d # takeWhile is_digit ds, dropWhile is_digit ds)"
                using c sign True by (auto simp: match_exp_def)
              moreover have "match_exp (c # x # d # ds @ rest) =
                      (c # x # d # takeWhile is_digit ds, dropWhile is_digit ds @ rest)"
                using c sign True span_digits_terminated[OF assms(1)]
                by (auto simp: match_exp_def)
              ultimately show ?thesis using assms(2) t cs Cons by auto
            next
              case False
              have "match_exp (c # x # d # ds) = ([], c # x # d # ds)"
                using c sign False by (auto simp: match_exp_def)
              moreover have "match_exp (c # x # d # ds @ rest) = ([], c # x # d # ds @ rest)"
                using c sign False by (auto simp: match_exp_def)
              ultimately show ?thesis using assms(2) t cs Cons by auto
            qed
          qed
        next
          case False
          note nosign = False
          show ?thesis
          proof (cases "is_digit x")
            case True
            have "match_exp (c # x # xs) =
                    (c # x # takeWhile is_digit xs, dropWhile is_digit xs)"
              using c nosign True by (auto simp: match_exp_def)
            moreover have "match_exp (c # x # xs @ rest) =
                    (c # x # takeWhile is_digit xs, dropWhile is_digit xs @ rest)"
              using c nosign True span_digits_terminated[OF assms(1)]
              by (auto simp: match_exp_def)
            ultimately show ?thesis using assms(2) t cs by auto
          next
            case False
            have "match_exp (c # x # xs) = ([], c # x # xs)"
              using c nosign False by (auto simp: match_exp_def)
            moreover have "match_exp (c # x # xs @ rest) = ([], c # x # xs @ rest)"
              using c nosign False by (auto simp: match_exp_def)
            ultimately show ?thesis using assms(2) t cs by auto
          qed
        qed
      qed
    qed
  qed
qed

lemma match_number_float_text:
  assumes "float_text t" and "terminated rest"
  shows "match_number fo (t @ rest) = Some (PyFloat (Finite (fo t)), rest)"
proof -
  obtain i r1 where i: "match_integer t = Some (i, r1)"
    using assms(1) by (auto simp: float_text_def split: option.splits)
  obtain f r2 where f: "match_frac r1 = (f, r2)" by (cases "match_frac r1")
  obtain e r3 where e: "match_exp r2 = (e, r3)" by (cases "match_exp r2")
  have r3: "r3 = []" and fe: "f \<noteq> [] \<or> e \<noteq> []"
    using assms(1) i f e by (simp_all add: float_text_def)
  have te: "terminated (r3 @ rest)" using r3 assms(2) by simp
  have me: "match_exp (r2 @ rest) = (e, r3 @ rest)" and se: "r2 = e @ r3"
    using match_exp_append[OF assms(2) e] by blast+
  have mf: "match_frac (r1 @ rest) = (f, r2 @ rest)" and sf: "r1 = f @ r2"
    using match_frac_append[OF assms(2) f] by blast+
  have mi: "match_integer (t @ rest) = Some (i, r1 @ rest)" and si: "t = i @ r1"
    using match_integer_append[OF assms(2) i] by blast+
  have "i @ f @ e = t" using si sf se r3 by simp
  then show ?thesis
    using fe r3 by (simp add: match_number_def mi mf me)
qed

lemma float_text_first:
  assumes "float_text t"
  shows "\<exists>c cs. t = c # cs \<and> (c = CHR ''-'' \<or> is_digit c)"
proof -
  obtain i r1 where i: "match_integer t = Some (i, r1)"
    using assms(1) by (auto simp: float_text_def split: option.splits)
  then show ?thesis
    by (cases t) (auto simp: match_integer_def split: if_splits list.splits)
qed

subsection \<open>White space and separators\<close>

lemma skip_ws_ws: "\<forall>c \<in> set w. is_ws c \<Longrightarrow> skip_ws (w @ t) = skip_ws t"
  by (simp add: skip_ws_def dropWhile_append2)

lemma skip_ws_not_ws: "\<not> is_ws c \<Longrightarrow> skip_ws (c # t) = c # t"
  by (simp add: skip_ws_def)

lemma newline_indent_ws: "\<forall>c \<in> set (newline_indent indent level). is_ws c"
  by (cases indent) (auto simp: newline_indent_def is_ws_def)

lemma item_separator_form:
  "\<exists>w. item_separator indent @ newline_indent indent level = CHR '','' # w \<and>
       (\<forall>c \<in> set w. is_ws c)"
  using newline_indent_ws[of indent level]
  by (cases indent) (auto simp: item_separator_def is_ws_def)

lemma terminated_ws_close:
  "\<forall>c \<in> set w. is_ws c \<Longrightarrow> c = CHR '']'' \<or> c = CHR ''}'' \<Longrightarrow> terminated (w @ c # rest)"
  by (cases w) (auto simp: terminated_def)

lemma terminated_comma: "terminated (CHR '','' # t)"
  by (simp add: terminated_def)

lemma terminated_Nil: "terminated []"
  by (simp add: terminated_def)

subsection \<open>Sequences and mappings\<close>

lemma encode_string_first: "encode_basestring_ascii s = CHR 0x22 # concat (map escape_char s) @ [CHR 0x22]"
  by (simp add: encode_basestring_ascii_def)

lemma iterencode_first:
  assumes "floats_read_back fr fo v"
  shows "\<exists>c cs. iterencode fr indent level v = c # cs \<and> \<not> is_ws c \<and>
           c \<noteq> CHR '']'' \<and> c \<noteq> CHR ''}'' \<and> c \<noteq> CHR '',''"
proof (cases v)
  case (PyInt i)
  obtain c cs where "int_repr i = c # cs" "c = CHR ''-'' \<or> is_digit c"
    using int_repr_first by blast
  then show ?thesis using PyInt by (auto simp: is_ws_def is_digit_def)
next
  case (PyFloat f)
  show ?thesis
  proof (cases f)
    case (Finite r)
    then have "float_text (fr r)" using assms PyFloat by simp
    then obtain c cs where "fr r = c # cs" "c = CHR ''-'' \<or> is_digit c"
      using float_text_first by blast
    then show ?thesis using PyFloat Finite by (auto simp: is_ws_def is_digit_def)
  qed (simp_all add: PyFloat is_ws_def)
next
  case (PyBool b)
  then show ?thesis by (cases b) (auto simp: is_ws_def)
qed (auto simp: is_ws_def encode_basestring_ascii_def)

lemma skip_ws_iterencode:
  assumes "floats_read_back fr fo v" and "\<forall>c \<in> set w. is_ws c"
  shows "skip_ws (w @ iterencode fr indent level v @ t) = iterencode fr indent level v @ t"
proof -
  obtain c cs where "iterencode fr indent level v = c # cs" "\<not> is_ws c"
    using iterencode_first[OF assms(1)] by blast
  then show ?thesis using assms(2) by (simp add: skip_ws_ws skip_ws_not_ws)
qed

lemma skip_ws_encoded_string:
  assumes "\<forall>c \<in> set w. is_ws c"
  shows "skip_ws (w @ encode_basestring_ascii k @ t) = encode_basestring_ascii k @ t"
  using assms by (simp add: skip_ws_ws encode_basestring_ascii_def skip_ws_not_ws is_ws_def)

lemma join_Cons: "join sep (x # xs) = x @ (if xs = [] then [] else sep @ join sep xs)"
  by (cases xs) simp_all

lemma parse_array_join:
  assumes IH: "\<And>x n rest. x \<in> set xs \<Longrightarrow> weight x \<le> n \<Longrightarrow> terminated rest \<Longrightarrow>
                 scan_once fo n (iterencode fr indent level x @ rest) = Some (x, rest)"
    and nf: "\<And>x. x \<in> set xs \<Longrightarrow> floats_read_back fr fo x"
    and sep: "sep = CHR '','' # w" "\<forall>c \<in> set w. is_ws c"
    and cl: "\<forall>c \<in> set cl. is_ws c"
    and ne: "xs \<noteq> []"
    and fuel: "sum_list (map (\<lambda>x. Suc (weight x)) xs) \<le> n"
  shows "parse_array fo n
           (join sep (map (iterencode fr indent level) xs) @ cl @ CHR '']'' # rest) acc
         = Some (acc @ xs, rest)"
  using IH nf ne fuel
proof (induction xs arbitrary: n acc)
  case Nil
  then show ?case by simp
next
  case (Cons x xs)
  obtain m where n: "n = Suc m" and m: "weight x \<le> m"
    "sum_list (map (\<lambda>x. Suc (weight x)) xs) \<le> m"
    using Cons.prems(4) by (cases n) auto
  show ?case
  proof (cases "xs = []")
    case True
    have t: "terminated (cl @ CHR '']'' # rest)"
      using cl by (simp add: terminated_ws_close)
    have "scan_once fo m (iterencode fr indent level x @ cl @ CHR '']'' # rest)
            = Some (x, cl @ CHR '']'' # rest)"
      using Cons.prems(1)[OF _ m(1) t] by simp
    moreover have "skip_ws (cl @ CHR '']'' # rest) = CHR '']'' # rest"
      using cl by (simp add: skip_ws_ws skip_ws_not_ws is_ws_def)
    ultimately show ?thesis using True n by simp
  next
    case False
    let ?tail = "join sep (map (iterencode fr indent level) xs) @ cl @ CHR '']'' # rest"
    obtain y ys where xs: "xs = y # ys" using False by (cases xs) auto
    have t: "terminated (sep @ ?tail)"
      using sep by (simp add: terminated_comma)
    have 1: "scan_once fo m (iterencode fr indent level x @ sep @ ?tail) = Some (x, sep @ ?tail)"
      using Cons.prems(1)[OF _ m(1) t] by simp
    have 2: "skip_ws (sep @ ?tail) = CHR '','' # w @ ?tail"
      using sep by (simp add: skip_ws_not_ws is_ws_def)
    have "floats_read_back fr fo y" using Cons.prems(2) xs by simp
    then have 3: "skip_ws (w @ ?tail) = ?tail"
      using skip_ws_iterencode[OF _ sep(2), where v = y and indent = indent and level = level] xs
      by (simp add: join_Cons)
    have 4: "parse_array fo m ?tail (acc @ [x]) = Some ((acc @ [x]) @ xs, rest)"
      using Cons.IH[OF Cons.prems(1) Cons.prems(2) False m(2)] by simp
    show ?thesis
      using False n 1 2 3 4 by (simp add: join_Cons)
  qed
qed

lemma parse_object_join:
  assumes IH: "\<And>k v n rest. (k, v) \<in> set kvs \<Longrightarrow> weight v \<le> n \<Longrightarrow> terminated rest \<Longrightarrow>
                 scan_once fo n (iterencode fr indent level v @ rest) = Some (v, rest)"
    and nf: "\<And>k v. (k, v) \<in> set kvs \<Longrightarrow> floats_read_back fr fo v"
    and sep: "sep = CHR '','' # w" "\<forall>c \<in> set w. is_ws c"
    and cl: "\<forall>c \<in> set cl. is_ws c"
    and ne: "kvs \<noteq> []"
    and fuel: "sum_list (map (\<lambda>(k, v). Suc (weight v)) kvs) \<le> n"
  shows "parse_object fo n
           (join sep (map (\<lambda>(k, v). encode_basestring_ascii k @ '': ''
                                      @ iterencode fr indent level v) kvs)
              @ cl @ CHR ''}'' # rest) acc
         = Some (acc @ kvs, rest)"
  using IH nf ne fuel
proof (induction kvs arbitrary: n acc)
  case Nil
  then show ?case by simp
next
  case (Cons kv kvs)
  obtain k v where kv: "kv = (k, v)" by (cases kv)
  obtain m where n: "n = Suc m" and m: "weight v \<le> m"
    "sum_list (map (\<lambda>(k, v). Suc (weight v)) kvs) \<le> m"
    using Cons.prems(4) kv by (cases n) auto
  have mem: "(k, v) \<in> set (kv # kvs)" using kv by simp
  have nfv: "floats_read_back fr fo v" using Cons.prems(2)[OF mem] .
  have key: "\<And>t. \<exists>cs. encode_basestring_ascii k @ t = CHR 0x22 # cs \<and>
                scanstring cs [] = Some (k, t)"
    using scanstring_encoded[of k] by (simp add: encode_basestring_ascii_def)
  have colon: "\<And>t. skip_ws (CHR '':'' # t) = CHR '':'' # t"
    by (simp add: skip_ws_not_ws is_ws_def)
  have space: "\<And>t. skip_ws (CHR '' '' # iterencode fr indent level v @ t)
                  = iterencode fr indent level v @ t"
    using skip_ws_iterencode[OF nfv, where w = "'' ''" and indent = indent and level = level] by (simp add: is_ws_def)
  show ?case
  proof (cases "kvs = []")
    case True
    have t: "terminated (cl @ CHR ''}'' # rest)"
      using cl by (simp add: terminated_ws_close)
    have 1: "scan_once fo m (iterencode fr indent level v @ cl @ CHR ''}'' # rest)
            = Some (v, cl @ CHR ''}'' # rest)"
      using Cons.prems(1)[OF mem m(1) t] .
    have 2: "skip_ws (cl @ CHR ''}'' # rest) = CHR ''}'' # rest"
      using cl by (simp add: skip_ws_ws skip_ws_not_ws is_ws_def)
    obtain cs where cs: "encode_basestring_ascii k @ '': '' @ iterencode fr indent level v
          @ cl @ CHR ''}'' # rest = CHR 0x22 # cs"
        "scanstring cs [] = Some (k, '': '' @ iterencode fr indent level v @ cl @ CHR ''}'' # rest)"
      using key by blast
    show ?thesis
      using True n kv cs 1 2 colon space by simp
  next
    case False
    let ?tail = "join sep (map (\<lambda>(k, v). encode_basestring_ascii k @ '': ''
                                      @ iterencode fr indent level v) kvs)
              @ cl @ CHR ''}'' # rest"
    obtain k' v' ys where kvs: "kvs = (k', v') # ys" using False by (cases kvs) auto
    have t: "terminated (sep @ ?tail)"
      using sep by (simp add: terminated_comma)
    have 1: "scan_once fo m (iterencode fr indent level v @ sep @ ?tail) = Some (v, sep @ ?tail)"
      using Cons.prems(1)[OF mem m(1) t] .
    have 2: "skip_ws (sep @ ?tail) = CHR '','' # w @ ?tail"
      using sep by (simp add: skip_ws_not_ws is_ws_def)
    have 3: "skip_ws (w @ ?tail) = ?tail"
      using skip_ws_encoded_string[OF sep(2), of k'] kvs
      by (simp add: join_Cons)
    have ih1: "\<And>k v n rest. (k, v) \<in> set kvs \<Longrightarrow> weight v \<le> n \<Longrightarrow> terminated rest \<Longrightarrow>
                 scan_once fo n (iterencode fr indent level v @ rest) = Some (v, rest)"
      using Cons.prems(1) by (meson list.set_intros(2))
    have ih2: "\<And>k v. (k, v) \<in> set kvs \<Longrightarrow> floats_read_back fr fo v"
      using Cons.prems(2) by (meson list.set_intros(2))
    have 4: "parse_object fo m ?tail (acc @ [(k, v)]) = Some ((acc @ [(k, v)]) @ kvs, rest)"
      using Cons.IH[OF ih1 ih2 False m(2)] by simp
    obtain cs where cs: "encode_basestring_ascii k @ '': '' @ iterencode fr indent level v
          @ sep @ ?tail = CHR 0x22 # cs"
        "scanstring cs [] = Some (k, '': '' @ iterencode fr indent level v @ sep @ ?tail)"
      using key by blast
    show ?thesis
      using False n kv cs 1 2 3 4 colon space by (simp add: join_Cons)
  qed
qed

lemma update_fresh: "k \<notin> fst ` set al \<Longrightarrow> AList.update k v al = al @ [(k, v)]"
  by (induction al) auto

lemma fold_update_distinct:
  "distinct (map fst kvs) \<Longrightarrow> fst ` set acc \<inter> fst ` set kvs = {} \<Longrightarrow>
     fold (\<lambda>(k, v). AList.update k v) kvs acc = acc @ kvs"
proof (induction kvs arbitrary: acc)
  case Nil
  then show ?case by simp
next
  case (Cons kv kvs)
  obtain k v where kv: "kv = (k, v)" by (cases kv)
  have "k \<notin> fst ` set acc" using Cons.prems(2) kv by auto
  then have "AList.update k v acc = acc @ [(k, v)]" by (rule update_fresh)
  moreover have "fst ` set (acc @ [(k, v)]) \<inter> fst ` set kvs = {}"
    using Cons.prems kv by auto
  ultimately show ?case
    using Cons.IH[of "acc @ [(k, v)]"] Cons.prems(1) kv by simp
qed

lemma dict_of_pairs_distinct: "distinct (map fst kvs) \<Longrightarrow> dict_of_pairs kvs = kvs"
  using fold_update_distinct[of kvs "[]"] by (simp add: dict_of_pairs_def)

subsection \<open>One value\<close>

lemma scan_once_other:
  assumes "c \<noteq> CHR 0x22" and "c \<noteq> CHR ''{''" and "c \<noteq> CHR ''[''"
    and "c \<noteq> CHR ''n''" and "c \<noteq> CHR ''t''" and "c \<noteq> CHR ''f''"
  shows "scan_once fo (Suc m) (c # cs) =
     (case match_number fo (c # cs) of
        Some r \<Rightarrow> Some r
      | None \<Rightarrow>
          if take 3 (c # cs) = ''NaN'' then Some (PyFloat NaN, drop 3 (c # cs))
          else if take 8 (c # cs) = ''Infinity'' then Some (PyFloat PosInf, drop 8 (c # cs))
          else if take 9 (c # cs) = ''-Infinity'' then Some (PyFloat NegInf, drop 9 (c # cs))
          else None)"
  using assms by simp


lemma scan_once_int:
  assumes "terminated rest"
  shows "scan_once fo (Suc m) (int_repr i @ rest) = Some (PyInt i, rest)"
proof -
  obtain c cs where c: "int_repr i = c # cs" "c = CHR ''-'' \<or> is_digit c"
    using int_repr_first by blast
  have m: "match_number fo (c # cs @ rest) = Some (PyInt i, rest)"
    using match_number_int_repr[OF assms, of fo i] c(1) by simp
  have ne: "c \<noteq> CHR 0x22" "c \<noteq> CHR ''{''" "c \<noteq> CHR ''[''"
    "c \<noteq> CHR ''n''" "c \<noteq> CHR ''t''" "c \<noteq> CHR ''f''"
    using c(2) by (auto simp: is_digit_def)
  have "scan_once fo (Suc m) (c # cs @ rest) = Some (PyInt i, rest)"
    unfolding scan_once_other[OF ne] m by simp
  then show ?thesis
    using c(1) by simp
qed


lemma match_number_not_number:
  "c \<noteq> CHR ''-'' \<Longrightarrow> \<not> is_digit c \<Longrightarrow> match_number fo (c # cs) = None"
  by (simp add: match_number_def match_integer_def)

lemma match_number_minus_not_number:
  "\<not> is_digit d \<Longrightarrow> match_number fo (CHR ''-'' # d # cs) = None"
  by (simp add: match_number_def match_integer_def)

lemma scan_once_float_text:
  assumes "float_text t" and "terminated rest"
  shows "scan_once fo (Suc m) (t @ rest) = Some (PyFloat (Finite (fo t)), rest)"
proof -
  obtain c cs where c: "t = c # cs" "c = CHR ''-'' \<or> is_digit c"
    using float_text_first[OF assms(1)] by blast
  have m: "match_number fo (c # cs @ rest) = Some (PyFloat (Finite (fo t)), rest)"
    using match_number_float_text[OF assms, of fo] c(1) by simp
  have ne: "c \<noteq> CHR 0x22" "c \<noteq> CHR ''{''" "c \<noteq> CHR ''[''"
    "c \<noteq> CHR ''n''" "c \<noteq> CHR ''t''" "c \<noteq> CHR ''f''"
    using c(2) by (auto simp: is_digit_def)
  have "scan_once fo (Suc m) (c # cs @ rest) = Some (PyFloat (Finite (fo t)), rest)"
    unfolding scan_once_other[OF ne] m by simp
  then show ?thesis
    using c(1) by simp
qed

lemma scan_once_NaN: "scan_once fo (Suc m) (''NaN'' @ rest) = Some (PyFloat NaN, rest)"
proof -
  have ne: "CHR ''N'' \<noteq> CHR 0x22" "CHR ''N'' \<noteq> CHR ''{''" "CHR ''N'' \<noteq> CHR ''[''"
    "CHR ''N'' \<noteq> CHR ''n''" "CHR ''N'' \<noteq> CHR ''t''" "CHR ''N'' \<noteq> CHR ''f''"
    by simp_all
  have m: "match_number fo (CHR ''N'' # ''aN'' @ rest) = None"
    by (rule match_number_not_number) (simp_all add: is_digit_def)
  have "scan_once fo (Suc m) (CHR ''N'' # ''aN'' @ rest) = Some (PyFloat NaN, rest)"
    unfolding scan_once_other[OF ne] m by simp
  then show ?thesis by simp
qed

lemma scan_once_Infinity:
  "scan_once fo (Suc m) (''Infinity'' @ rest) = Some (PyFloat PosInf, rest)"
proof -
  have ne: "CHR ''I'' \<noteq> CHR 0x22" "CHR ''I'' \<noteq> CHR ''{''" "CHR ''I'' \<noteq> CHR ''[''"
    "CHR ''I'' \<noteq> CHR ''n''" "CHR ''I'' \<noteq> CHR ''t''" "CHR ''I'' \<noteq> CHR ''f''"
    by simp_all
  have m: "match_number fo (CHR ''I'' # ''nfinity'' @ rest) = None"
    by (rule match_number_not_number) (simp_all add: is_digit_def)
  have "scan_once fo (Suc m) (CHR ''I'' # ''nfinity'' @ rest) = Some (PyFloat PosInf, rest)"
    unfolding scan_once_other[OF ne] m by simp
  then show ?thesis by simp
qed

lemma scan_once_NegInfinity:
  "scan_once fo (Suc m) (''-Infinity'' @ rest) = Some (PyFloat NegInf, rest)"
proof -
  have ne: "CHR ''-'' \<noteq> CHR 0x22" "CHR ''-'' \<noteq> CHR ''{''" "CHR ''-'' \<noteq> CHR ''[''"
    "CHR ''-'' \<noteq> CHR ''n''" "CHR ''-'' \<noteq> CHR ''t''" "CHR ''-'' \<noteq> CHR ''f''"
    by simp_all
  have m: "match_number fo (CHR ''-'' # CHR ''I'' # ''nfinity'' @ rest) = None"
    by (rule match_number_minus_not_number) (simp add: is_digit_def)
  have "scan_once fo (Suc m) (CHR ''-'' # CHR ''I'' # ''nfinity'' @ rest)
          = Some (PyFloat NegInf, rest)"
    unfolding scan_once_other[OF ne] m by simp
  then show ?thesis by simp
qed

lemma scan_once_float:
  assumes "floats_read_back fr fo (PyFloat f)" and "terminated rest"
  shows "scan_once fo (Suc m) (iterencode fr indent level (PyFloat f) @ rest)
           = Some (PyFloat f, rest)"
proof (cases f)
  case (Finite r)
  then have "float_text (fr r)" "fo (fr r) = r" using assms(1) by simp_all
  then show ?thesis
    using scan_once_float_text[OF _ assms(2), of "fr r" fo m] Finite by simp
next
  case NaN
  then show ?thesis using scan_once_NaN[of fo m rest] by simp
next
  case PosInf
  then show ?thesis using scan_once_Infinity[of fo m rest] by simp
next
  case NegInf
  then show ?thesis using scan_once_NegInfinity[of fo m rest] by simp
qed

lemma scan_once_str:
  "scan_once fo (Suc m) (encode_basestring_ascii s @ rest) = Some (PyStr s, rest)"
  using scanstring_escaped[of s rest "[]"] by (simp add: encode_basestring_ascii_def)

lemma scan_once_null: "scan_once fo (Suc m) (''null'' @ rest) = Some (PyNone, rest)"
  by simp

lemma scan_once_true: "scan_once fo (Suc m) (''true'' @ rest) = Some (PyBool True, rest)"
  by simp

lemma scan_once_false: "scan_once fo (Suc m) (''false'' @ rest) = Some (PyBool False, rest)"
  by simp

lemma scan_once_empty_list: "scan_once fo (Suc m) (''[]'' @ rest) = Some (PyList [], rest)"
  by (simp add: skip_ws_not_ws is_ws_def)

lemma scan_once_empty_dict: "scan_once fo (Suc m) (''{}'' @ rest) = Some (PyDict [], rest)"
  by (simp add: skip_ws_not_ws is_ws_def)

lemma scan_once_iterencode:
  assumes "floats_read_back fr fo v" and "unique_keys v" and "weight v \<le> n" and "terminated rest"
  shows "scan_once fo n (iterencode fr indent level v @ rest) = Some (v, rest)"
  using assms
proof (induction v arbitrary: n rest level)
  case PyNone
  then obtain m where "n = Suc m" by (cases n) auto
  then show ?case using scan_once_null by simp
next
  case (PyBool b)
  then obtain m where "n = Suc m" by (cases n) auto
  then show ?case using scan_once_true scan_once_false by (cases b) simp_all
next
  case (PyInt i)
  then obtain m where "n = Suc m" by (cases n) auto
  then show ?case using scan_once_int[OF PyInt.prems(4)] by simp
next
  case (PyFloat f)
  then obtain m where "n = Suc m" by (cases n) auto
  then show ?case using scan_once_float[OF PyFloat.prems(1) PyFloat.prems(4)] by simp
next
  case (PyStr s)
  then obtain m where "n = Suc m" by (cases n) auto
  then show ?case using scan_once_str by simp
next
  case (PyList xs)
  obtain m where n: "n = Suc m" and m: "sum_list (map (\<lambda>x. Suc (weight x)) xs) \<le> m"
    using PyList.prems(3) by (cases n) auto
  show ?case
  proof (cases "xs = []")
    case True
    then show ?thesis using n scan_once_empty_list by simp
  next
    case False
    obtain x ys where xs: "xs = x # ys" using False by (cases xs) auto
    obtain w where sep: "item_separator indent @ newline_indent indent (Suc level) = CHR '','' # w"
        "\<forall>c \<in> set w. is_ws c"
      using item_separator_form by blast
    let ?items = "join (item_separator indent @ newline_indent indent (Suc level))
                    (map (iterencode fr indent (Suc level)) xs)"
    let ?body = "?items @ newline_indent indent level @ CHR '']'' # rest"
    have ih: "\<And>x n rest. x \<in> set xs \<Longrightarrow> weight x \<le> n \<Longrightarrow> terminated rest \<Longrightarrow>
                 scan_once fo n (iterencode fr indent (Suc level) x @ rest) = Some (x, rest)"
      using PyList.IH PyList.prems(1,2) by simp
    have nf: "\<And>x. x \<in> set xs \<Longrightarrow> floats_read_back fr fo x"
      using PyList.prems(1) by simp
    have arr: "parse_array fo m ?body [] = Some (xs, rest)"
      using parse_array_join[OF ih nf sep newline_indent_ws[of indent level] False m,
              where rest = rest and acc = "[]"]
      by simp
    obtain c cs where c: "iterencode fr indent (Suc level) x = c # cs" "\<not> is_ws c"
        "c \<noteq> CHR '']''"
    proof -
      have "floats_read_back fr fo x" using nf xs by simp
      from iterencode_first[OF this, where indent = indent and level = "Suc level"] show ?thesis
        using that by blast
    qed
    have skip: "skip_ws (newline_indent indent (Suc level) @ ?body) = ?body"
      using skip_ws_iterencode[OF nf newline_indent_ws[of indent "Suc level"],
              where indent = indent and level = "Suc level" and v = x]
        xs by (simp add: join_Cons)
    obtain bs where body: "?body = c # bs"
      using c xs by (simp add: join_Cons)
    have "scan_once fo (Suc m) (CHR ''['' # newline_indent indent (Suc level) @ ?body)
            = Some (PyList xs, rest)"
      using skip arr c(3) unfolding body by simp
    then show ?thesis using False n by simp
  qed
next
  case (PyDict kvs)
  obtain m where n: "n = Suc m" and m: "sum_list (map (\<lambda>(k, v). Suc (weight v)) kvs) \<le> m"
    using PyDict.prems(3) by (cases n) auto
  show ?case
  proof (cases "kvs = []")
    case True
    then show ?thesis using n scan_once_empty_dict by simp
  next
    case False
    obtain k v ys where kvs: "kvs = (k, v) # ys" using False by (cases kvs) auto
    obtain w where sep: "item_separator indent @ newline_indent indent (Suc level) = CHR '','' # w"
        "\<forall>c \<in> set w. is_ws c"
      using item_separator_form by blast
    let ?items = "join (item_separator indent @ newline_indent indent (Suc level))
                    (map (\<lambda>(k, v). encode_basestring_ascii k @ '': ''
                                      @ iterencode fr indent (Suc level) v) kvs)"
    let ?body = "?items @ newline_indent indent level @ CHR ''}'' # rest"
    have ih: "\<And>k v n rest. (k, v) \<in> set kvs \<Longrightarrow> weight v \<le> n \<Longrightarrow> terminated rest \<Longrightarrow>
                 scan_once fo n (iterencode fr indent (Suc level) v @ rest) = Some (v, rest)"
    proof -
      fix k v n rest
      assume a: "(k, v) \<in> set kvs" "weight v \<le> n" "terminated rest"
      have "v \<in> Basic_BNFs.snds (k, v)" by simp
      moreover have "floats_read_back fr fo v" "unique_keys v"
        using a(1) PyDict.prems(1,2) by auto
      ultimately show "scan_once fo n (iterencode fr indent (Suc level) v @ rest) = Some (v, rest)"
        using PyDict.IH[OF a(1)] a(2,3) by blast
    qed
    have nf: "\<And>k v. (k, v) \<in> set kvs \<Longrightarrow> floats_read_back fr fo v"
      using PyDict.prems(1) by auto
    have obj: "parse_object fo m ?body [] = Some (kvs, rest)"
      using parse_object_join[OF ih nf sep newline_indent_ws[of indent level] False m,
              where rest = rest and acc = "[]"]
      by simp
    have skip: "skip_ws (newline_indent indent (Suc level) @ ?body) = ?body"
      using skip_ws_encoded_string[OF newline_indent_ws[of indent "Suc level"], where k = k] kvs
      by (simp add: join_Cons)
    obtain bs where body: "?body = CHR 0x22 # bs"
      using kvs by (simp add: join_Cons encode_basestring_ascii_def)
    have d: "dict_of_pairs kvs = kvs"
      using PyDict.prems(2) by (simp add: dict_of_pairs_distinct)
    have "scan_once fo (Suc m) (CHR ''{'' # newline_indent indent (Suc level) @ ?body)
            = Some (PyDict kvs, rest)"
      using skip obj d unfolding body by simp
    then show ?thesis using False n by simp
  qed
qed

subsection \<open>The whole text\<close>

lemma weight_join:
  assumes "\<And>x. x \<in> set xs \<Longrightarrow> w x \<le> length (f x)" and "sep \<noteq> []" and "xs \<noteq> []"
  shows "sum_list (map (\<lambda>x. Suc (w x)) xs) \<le> Suc (length (join sep (map f xs)))"
  using assms
proof (induction xs)
  case Nil
  then show ?case by simp
next
  case (Cons x xs)
  show ?case
  proof (cases "xs = []")
    case True
    then show ?thesis using Cons.prems(1)[of x] by simp
  next
    case False
    have "sum_list (map (\<lambda>x. Suc (w x)) xs) \<le> Suc (length (join sep (map f xs)))"
      using Cons.IH Cons.prems False by simp
    moreover have "w x \<le> length (f x)" using Cons.prems(1) by simp
    moreover have "1 \<le> length sep" using Cons.prems(2) by (cases sep) auto
    ultimately show ?thesis using False by (simp add: join_Cons)
  qed
qed

lemma item_separator_not_Nil: "item_separator indent \<noteq> []"
  by (cases indent) (simp_all add: item_separator_def)

lemma weight_le_length:
  assumes "floats_read_back fr fo v"
  shows "weight v \<le> length (iterencode fr indent level v)"
  using assms
proof (induction v arbitrary: level)
  case (PyInt i)
  obtain c cs where "int_repr i = c # cs" using int_repr_first by blast
  then show ?case by simp
next
  case (PyFloat f)
  show ?case
  proof (cases f)
    case (Finite r)
    then have "float_text (fr r)" using PyFloat by simp
    then obtain c cs where "fr r = c # cs" using float_text_first by blast
    then show ?thesis using Finite by simp
  qed simp_all
next
  case (PyList xs)
  show ?case
  proof (cases "xs = []")
    case True
    then show ?thesis by simp
  next
    case False
    have "sum_list (map (\<lambda>x. Suc (weight x)) xs)
            \<le> Suc (length (join (item_separator indent @ newline_indent indent (Suc level))
                               (map (iterencode fr indent (Suc level)) xs)))"
      using PyList.IH PyList.prems False
      by (intro weight_join) (simp_all add: item_separator_not_Nil)
    then show ?thesis using False by simp
  qed
next
  case (PyDict kvs)
  show ?case
  proof (cases "kvs = []")
    case True
    then show ?thesis by simp
  next
    case False
    have each: "\<And>kv. kv \<in> set kvs \<Longrightarrow>
             (case kv of (k, v) \<Rightarrow> weight v)
               \<le> length (case kv of (k, v) \<Rightarrow> encode_basestring_ascii k @ '': ''
                                          @ iterencode fr indent (Suc level) v)"
    proof -
      fix kv assume a: "kv \<in> set kvs"
      obtain k v where kv: "kv = (k, v)" by (cases kv)
      have "floats_read_back fr fo v" using a kv PyDict.prems by auto
      then have "weight v \<le> length (iterencode fr indent (Suc level) v)"
        using PyDict.IH[OF a, of v "Suc level"] kv by simp
      then show "(case kv of (k, v) \<Rightarrow> weight v)
               \<le> length (case kv of (k, v) \<Rightarrow> encode_basestring_ascii k @ '': ''
                                          @ iterencode fr indent (Suc level) v)"
        using kv by simp
    qed
    have "sum_list (map (\<lambda>kv. Suc (case kv of (k, v) \<Rightarrow> weight v)) kvs)
            \<le> Suc (length (join (item_separator indent @ newline_indent indent (Suc level))
                  (map (\<lambda>kv. case kv of (k, v) \<Rightarrow> encode_basestring_ascii k @ '': ''
                                      @ iterencode fr indent (Suc level) v) kvs)))"
      using each False by (intro weight_join) (simp_all add: item_separator_not_Nil)
    moreover have "sum_list (map (\<lambda>(k, v). Suc (weight v)) kvs)
                     = sum_list (map (\<lambda>kv. Suc (case kv of (k, v) \<Rightarrow> weight v)) kvs)"
      by (induction kvs) auto
    moreover have "(\<lambda>kv. case kv of (k, v) \<Rightarrow> encode_basestring_ascii k @ '': ''
                                      @ iterencode fr indent (Suc level) v)
                   = (\<lambda>(k, v). encode_basestring_ascii k @ '': ''
                                      @ iterencode fr indent (Suc level) v)"
      by simp
    ultimately show ?thesis using False by simp
  qed
qed (simp_all add: encode_basestring_ascii_def)

lemma loads_dumps:
  assumes "floats_read_back fr fo v" and "unique_keys v"
  shows "json_loads_model fo (json_dumps_model fr indent v) = Inr v"
proof -
  let ?t = "iterencode fr indent 0 v"
  have "skip_ws ([] @ ?t @ []) = ?t @ []"
    using assms(1) by (intro skip_ws_iterencode) simp_all
  then have s: "skip_ws ?t = ?t" by simp
  have "weight v \<le> Suc (length ?t)"
    using weight_le_length[OF assms(1), where indent = indent and level = 0] by simp
  then have "scan_once fo (Suc (length ?t)) (?t @ []) = Some (v, [])"
    using assms by (intro scan_once_iterencode) (simp_all add: terminated_Nil)
  then have r: "scan_once fo (Suc (length ?t)) ?t = Some (v, [])"
    by (simp del: scan_once.simps)
  show ?thesis
    unfolding json_loads_model_def json_dumps_model_def s r by (simp add: skip_ws_def)
qed

lemma dumps_empty_dict: "json_dumps_model fr indent (PyDict []) = ''{}''"
  by (simp add: json_dumps_model_def)

text \<open>
  The empty-inventory sentinel with 2-space indentation, line by line:
  \<^verbatim>\<open>{\<close>, \<^verbatim>\<open>  "_meta": {\<close>, \<^verbatim>\<open>    "hostvars": {}\<close>, \<^verbatim>\<open>  }\<close>, \<^verbatim>\<open>}\<close>.
\<close>

lemma dumps_empty_inventory:
  "json_dumps_model fr (Some 2) empty_inventory =
     ''{'' @ [CHR 0x0A] @
     ''  '' @ [CHR 0x22] @ ''_meta'' @ [CHR 0x22] @ '': {'' @ [CHR 0x0A] @
     ''    '' @ [CHR 0x22] @ ''hostvars'' @ [CHR 0x22] @ '': {}'' @ [CHR 0x0A] @
     ''  }'' @ [CHR 0x0A] @
     ''}''"
  by (simp add: json_dumps_model_def empty_inventory_def newline_indent_def
        item_separator_def encode_basestring_ascii_def escape_char_def numeral_2_eq_2
        numeral_3_eq_3 eval_nat_numeral)

subsection \<open>The documents of the builder\<close>

lemma unique_keys_item: "unique_keys v \<Longrightarrow> item v k = Some w \<Longrightarrow> unique_keys w"
  by (cases v) (auto dest!: map_of_SomeD)

lemma unique_keys_path: "unique_keys v \<Longrightarrow> path v ks = Some w \<Longrightarrow> unique_keys w"
  by (induction ks arbitrary: v) (auto split: option.splits dest: unique_keys_item)

lemma floats_read_back_item:
  "floats_read_back fr fo v \<Longrightarrow> item v k = Some w \<Longrightarrow> floats_read_back fr fo w"
  by (cases v) (auto dest!: map_of_SomeD)

lemma floats_read_back_path:
  "floats_read_back fr fo v \<Longrightarrow> path v ks = Some w \<Longrightarrow> floats_read_back fr fo w"
  by (induction ks arbitrary: v) (auto split: option.splits dest: floats_read_back_item)

lemma unique_keys_output_value_or:
  assumes "unique_keys out" and "unique_keys d"
  shows "unique_keys (output_value_or out k d)"
proof (cases "path out [k, ''value'']")
  case None
  show ?thesis unfolding output_value_or_def None using assms(2) by simp
next
  case (Some w)
  show ?thesis unfolding output_value_or_def Some
    using unique_keys_path[OF assms(1) Some] by simp
qed

lemma floats_read_back_output_value_or:
  assumes "floats_read_back fr fo out" and "floats_read_back fr fo d"
  shows "floats_read_back fr fo (output_value_or out k d)"
proof (cases "path out [k, ''value'']")
  case None
  show ?thesis unfolding output_value_or_def None using assms(2) by simp
next
  case (Some w)
  show ?thesis unfolding output_value_or_def Some
    using floats_read_back_path[OF assms(1) Some] by simp
qed

lemma unique_keys_inventory:
  "unique_keys a \<Longrightarrow> unique_keys d \<Longrightarrow> unique_keys (inventory_dict a d ver tok)"
  by (simp add: inventory_dict_def)

lemma floats_read_back_inventory:
  "floats_read_back fr fo a \<Longrightarrow> floats_read_back fr fo d \<Longrightarrow>
     floats_read_back fr fo (inventory_dict a d ver tok)"
  by (simp add: inventory_dict_def)

lemma unique_keys_empty_inventory: "unique_keys empty_inventory"
  by (simp add: empty_inventory_def)

lemma floats_read_back_empty_inventory: "floats_read_back fr fo empty_inventory"
  by (simp add: empty_inventory_def)

text \<open>
  C8. For every ProvisioningOutput, a value of Python (each key of a mapping once) whose
  finite floats the library prints as texts that it reads back as the same floats: the
  document that the builder returns, serialized with 2-space indentation and parsed, is
  the document again.
\<close>

theorem serialized_inventory_reads_back:
  assumes "provisioning_output out" and "unique_keys out" and "floats_read_back fr fo out"
  shows "\<exists>doc s'. generate_inventory_from out s = (Inr doc, s') \<and>
           json_loads_model fo (json_dumps_model fr (Some 2) doc) = Inr doc"
proof -
  let ?a = "output_value_or out ''ec2_public_ip'' (PyStr '''')"
  let ?d = "output_value_or out ''vault_domain'' (PyStr ''vault.example.com'')"
  have ua: "unique_keys ?a" and ud: "unique_keys ?d"
    using assms(2) by (simp_all add: unique_keys_output_value_or)
  have fa: "floats_read_back fr fo ?a" and fd: "floats_read_back fr fo ?d"
    using assms(3) by (simp_all add: floats_read_back_output_value_or)
  show ?thesis
  proof (cases "truthy ?a")
    case True
    have "json_loads_model fo (json_dumps_model fr (Some 2)
             (inventory_dict ?a ?d ''1.15.6'' ''vault-dev-root-token''))
          = Inr (inventory_dict ?a ?d ''1.15.6'' ''vault-dev-root-token'')"
      using ua ud fa fd
      by (intro loads_dumps floats_read_back_inventory unique_keys_inventory)
    then show ?thesis
      using True provisioning_output_readable[OF assms(1)]
      by (simp add: generate_inventory_from_readable)
  next
    case False
    have "json_loads_model fo (json_dumps_model fr (Some 2) empty_inventory)
          = Inr empty_inventory"
      by (intro loads_dumps floats_read_back_empty_inventory unique_keys_empty_inventory)
    then show ?thesis
      using False provisioning_output_readable[OF assms(1)]
      by (simp add: generate_inventory_from_readable)
  qed
qed

theorem serialized_inventory_reads_back_witness:
  "provisioning_output float_domain_output \<and> unique_keys float_domain_output \<and>
   floats_read_back (\<lambda>r. ''1.5'') (\<lambda>t. 3 / 2) float_domain_output \<and>
   (\<exists>doc s'. generate_inventory_from float_domain_output fresh_io = (Inr doc, s') \<and>
      json_loads_model (\<lambda>t. 3 / 2) (json_dumps_model (\<lambda>r. ''1.5'') (Some 2) doc) = Inr doc)"
proof -
  have p: "provisioning_output float_domain_output"
    by (simp add: provisioning_output_def float_domain_output_def)
  have u: "unique_keys float_domain_output"
    by (simp add: float_domain_output_def)
  have t: "float_text ''1.5''"
    by (simp add: float_text_def match_integer_def match_frac_def match_exp_def is_digit_def)
  have f: "floats_read_back (\<lambda>r. ''1.5'') (\<lambda>t. 3 / 2) float_domain_output"
    using t by (simp add: float_domain_output_def)
  from serialized_inventory_reads_back[OF p u f, of fresh_io] p u f show ?thesis
    by blast
qed

end
